theory Spec2Isabelle
  imports Main
begin

section \<open>Python strings and integers used by \<open>pdfmerge.py\<close>\<close>

text \<open>
  A Python \<open>str\<close> is modelled as a \<open>string\<close>, one \<open>char\<close> per code point; the model
  therefore covers the strings whose code points lie in 0..255. Python's \<open>int\<close> is the
  unbounded \<open>int\<close>. Every exception the program can raise is a value of \<open>error\<close>.
\<close>

datatype error = ValueError | IndexError | FileNotDecryptedError | OtherError

text \<open>
  \<open>str.strip()\<close> removes the characters for which \<open>str.isspace\<close> holds. Below code point
  256 these are TAB..CR, FS..US, SPACE, NEL (0x85) and NBSP (0xA0).
\<close>

definition isspace :: "char \<Rightarrow> bool" where
  "isspace c =
     (let n = (of_char c :: nat)
      in (9 \<le> n \<and> n \<le> 13) \<or> (28 \<le> n \<and> n \<le> 31) \<or> n = 32 \<or> n = 133 \<or> n = 160)"

definition strip :: "string \<Rightarrow> string" where
  "strip s = rev (dropWhile isspace (rev (dropWhile isspace s)))"

text \<open>
  \<open>s.split(sep)\<close> for a one-character separator: always at least one piece, empty pieces
  kept.
\<close>

fun split :: "char \<Rightarrow> string \<Rightarrow> string list" where
  "split sep [] = [[]]"
| "split sep (c # cs) =
     (if c = sep then [] # split sep cs
      else (case split sep cs of
              [] \<Rightarrow> [[c]]
            | t # ts \<Rightarrow> (c # t) # ts))"

text \<open>
  \<open>token.split("-", 1)\<close> on a token that contains a dash: the text before the first dash and
  the text after it.
\<close>

definition split_first :: "char \<Rightarrow> string \<Rightarrow> string \<times> string" where
  "split_first sep s =
     (takeWhile (\<lambda>c. c \<noteq> sep) s, drop 1 (dropWhile (\<lambda>c. c \<noteq> sep) s))"

text \<open>
  \<open>int(s)\<close> on a string, base 10, as CPython reads it: leading white space, an optional
  sign, decimal digits in which single underscores may separate digits, trailing white
  space, and nothing else. The white space of the integer literal is TAB..CR and SPACE,
  together with NEL and NBSP, which CPython rewrites to a space first; FS..US are not
  skipped here although \<open>strip\<close> removes them. Leading zeros are allowed. The
  interpreter's configurable limit on the number of digits (4300 by default since 3.11) is
  not part of the model.
\<close>

definition int_space :: "char \<Rightarrow> bool" where
  "int_space c =
     (let n = (of_char c :: nat)
      in (9 \<le> n \<and> n \<le> 13) \<or> n = 32 \<or> n = 133 \<or> n = 160)"

definition isdigit :: "char \<Rightarrow> bool" where
  "isdigit c = (let n = (of_char c :: nat) in 48 \<le> n \<and> n \<le> 57)"

definition digit_or_us :: "char \<Rightarrow> bool" where
  "digit_or_us c = (isdigit c \<or> c = CHR ''_'')"

fun double_us :: "string \<Rightarrow> bool" where
  "double_us (a # b # cs) = ((a = CHR ''_'' \<and> b = CHR ''_'') \<or> double_us (b # cs))"
| "double_us _ = False"

fun digits_value :: "int \<Rightarrow> string \<Rightarrow> int" where
  "digits_value acc [] = acc"
| "digits_value acc (c # cs) =
     (if isdigit c then digits_value (10 * acc + (of_char c - 48)) cs
      else digits_value acc cs)"

definition py_int :: "string \<Rightarrow> error + int" where
  "py_int s =
     (let t = dropWhile int_space s;
          neg = (t \<noteq> [] \<and> hd t = CHR ''-'');
          u = (if t \<noteq> [] \<and> (hd t = CHR ''+'' \<or> hd t = CHR ''-'') then tl t else t);
          body = takeWhile digit_or_us u;
          rest = dropWhile digit_or_us u
      in if body = [] \<or> hd body = CHR ''_'' \<or> last body = CHR ''_'' \<or> double_us body
            \<or> dropWhile int_space rest \<noteq> []
         then Inl ValueError
         else Inr ((if neg then - 1 else 1) * digits_value 0 body))"

section \<open>The range parser\<close>

text \<open>
  An interval is a pair of optional 1-based page numbers, as \<open>parse_range\<close> builds it.
  \<open>parse_range\<close> is the loop over \<open>spec.split(",")\<close> with the list \<open>parts\<close> as
  accumulator; the first \<open>int\<close> that raises ends the call with that error.
\<close>

type_synonym interval = "int option \<times> int option"

text \<open>\<open>int(x) if x else None\<close>, for one side of a dash.\<close>

definition opt_int :: "string \<Rightarrow> error + int option" where
  "opt_int x =
     (if x \<noteq> [] then (case py_int x of Inl err \<Rightarrow> Inl err | Inr n \<Rightarrow> Inr (Some n))
      else Inr None)"

definition parse_token :: "string \<Rightarrow> error + interval" where
  "parse_token token =
     (if CHR ''-'' \<in> set token then
        (let (a, b) = split_first (CHR ''-'') token
         in case opt_int a of
              Inl err \<Rightarrow> Inl err
            | Inr start \<Rightarrow>
                (case opt_int b of
                   Inl err \<Rightarrow> Inl err
                 | Inr end' \<Rightarrow> Inr (start, end')))
      else
        (case py_int token of
           Inl err \<Rightarrow> Inl err
         | Inr n \<Rightarrow> Inr (Some n, Some n)))"

fun parse_loop :: "string list \<Rightarrow> interval list \<Rightarrow> error + interval list" where
  "parse_loop [] parts = Inr parts"
| "parse_loop (token # tokens) parts =
     (let token = strip token
      in if token = [] then parse_loop tokens parts
         else (case parse_token token of
                 Inl err \<Rightarrow> Inl err
               | Inr iv \<Rightarrow> parse_loop tokens (parts @ [iv])))"

definition parse_range :: "string \<Rightarrow> error + interval list" where
  "parse_range spec = parse_loop (split (CHR '','') spec) []"

section \<open>The range resolver\<close>

text \<open>\<open>range(a, b)\<close> on integers: \<open>a, a+1, ..., b-1\<close>, empty when \<open>b \<le> a\<close>.\<close>

definition py_range :: "int \<Rightarrow> int \<Rightarrow> int list" where
  "py_range a b = [a..b - 1]"

text \<open>
  The first loop of \<open>page_indices\<close>, with \<open>idx\<close> as accumulator. The parameter
  \<open>total\<close> of the source is written \<open>tot\<close>.
\<close>

fun collect :: "interval list \<Rightarrow> int \<Rightarrow> int list \<Rightarrow> int list" where
  "collect [] tot idx = idx"
| "collect ((s, e) # ranges) tot idx =
     (let s0 = (case s of None \<Rightarrow> 1 | Some v \<Rightarrow> v);
          e0 = (case e of None \<Rightarrow> tot | Some v \<Rightarrow> v);
          s0 = max 1 s0;
          e0 = min tot e0
      in collect ranges tot (if s0 \<le> e0 then idx @ py_range (s0 - 1) e0 else idx))"

text \<open>The second loop: \<open>seen\<close> is the set, \<open>out\<close> the list in first-seen order.\<close>

fun dedup :: "int list \<Rightarrow> int set \<Rightarrow> int list \<Rightarrow> int list" where
  "dedup [] seen out = out"
| "dedup (i # idx) seen out =
     (if i \<notin> seen then dedup idx (insert i seen) (out @ [i]) else dedup idx seen out)"

definition page_indices :: "interval list \<Rightarrow> int \<Rightarrow> int list" where
  "page_indices ranges tot =
     (if ranges = [] then py_range 0 tot else dedup (collect ranges tot []) {} [])"

section \<open>The merge driver\<close>

text \<open>
  The parsed command line. \<open>range_opt\<close> is \<open>args.range\<close>: \<open>None\<close> when no \<open>--range\<close> was
  given, otherwise the specs in the order given; \<open>output_arg\<close> is \<open>args.output\<close>.
\<close>

record args =
  inputs :: "string list"
  output_arg :: string
  range_opt :: "string list option"
  bookmarks :: bool
  metadata :: "string option"
  exclude_encrypted :: bool
  quiet :: bool
  verbose :: bool

text \<open>
  The PDF library and the file system are parameters of the model. A path either does not
  exist or names a file on which \<open>PdfReader(in_path)\<close> raises or returns a reader. A reader
  says whether it is encrypted, what \<open>decrypt("")\<close> does to it, and which pages it has (the
  type \<open>'p\<close> of a page is left open). \<open>decrypt("")\<close> either raises, or returns without
  having decrypted the file (the empty password is not the file's password; the program
  does not look at the value returned), or decrypts it. \<open>json_loads\<close> stands for
  \<open>json.loads\<close> followed by the look-ups the program makes in its result.
\<close>

datatype decrypt_result = DecryptRaises | NotDecrypted | Decrypted

record 'p PdfReader =
  is_encrypted :: bool
  decrypt :: decrypt_result
  pages :: "'p list"

text \<open>
  \<open>reader.pages\<close>: the pages of a file that is encrypted and was not decrypted cannot be
  read; the library raises \<open>FileNotDecryptedError\<close>.
\<close>

definition readable :: "'p PdfReader \<Rightarrow> bool" where
  "readable reader = (\<not> is_encrypted reader \<or> decrypt reader = Decrypted)"

definition get_pages :: "'p PdfReader \<Rightarrow> error + 'p list" where
  "get_pages reader = (if readable reader then Inr (pages reader) else Inl FileNotDecryptedError)"

datatype 'p opened = Raises error | Reader "'p PdfReader"

record 'p world =
  files :: "string \<Rightarrow> 'p opened option"
  json_loads :: "string \<Rightarrow> error + (string \<Rightarrow> string option)"

text \<open>
  The writer accumulates the pages in the order added, the outline items as pairs of a
  label and a page number, and the metadata entries.
\<close>

record 'p PdfWriter =
  wpages :: "'p list"
  outline :: "(string \<times> int) list"
  info :: "(string \<times> string) list"

definition add_page :: "'p PdfWriter \<Rightarrow> 'p \<Rightarrow> 'p PdfWriter" where
  "add_page w p = w\<lparr>wpages := wpages w @ [p]\<rparr>"

definition add_outline_item :: "'p PdfWriter \<Rightarrow> string \<Rightarrow> int \<Rightarrow> 'p PdfWriter" where
  "add_outline_item w label start = w\<lparr>outline := outline w @ [(label, start)]\<rparr>"

definition add_metadata :: "'p PdfWriter \<Rightarrow> (string \<times> string) list \<Rightarrow> 'p PdfWriter" where
  "add_metadata w kvs = w\<lparr>info := info w @ kvs\<rparr>"

text \<open>
  The state of a run: the writer, the lines printed to standard output_arg and to standard
  error, and the paths the run has looked at so far. A run ends by returning from \<open>main\<close>,
  by \<open>sys.exit\<close>, or with an exception nobody catches.
\<close>

record 'p run =
  writer :: "'p PdfWriter"
  stdout :: "string list"
  stderr :: "string list"
  touched :: "string list"

datatype outcome = Returned | SysExit int | Uncaught error

fun exit_code :: "outcome \<Rightarrow> int" where
  "exit_code Returned = 0"
| "exit_code (SysExit n) = n"
| "exit_code (Uncaught err) = 1"

datatype 'p flow = Next "'p run" | Stop outcome "'p run"

definition print_out :: "'p run \<Rightarrow> string \<Rightarrow> 'p run" where
  "print_out st line = st\<lparr>stdout := stdout st @ [line]\<rparr>"

definition print_err :: "'p run \<Rightarrow> string \<Rightarrow> 'p run" where
  "print_err st line = st\<lparr>stderr := stderr st @ [line]\<rparr>"

text \<open>\<open>os.path.basename\<close> on a POSIX path: what follows the last slash.\<close>

definition basename :: "string \<Rightarrow> string" where
  "basename p = rev (takeWhile (\<lambda>c. c \<noteq> CHR ''/'') (rev p))"

text \<open>\<open>str(n)\<close> for an integer, as the f-string of the verbose line prints it.\<close>

fun str_nat :: "nat \<Rightarrow> string" where
  "str_nat n =
     (if n < 10 then [char_of (48 + n)] else str_nat (n div 10) @ [char_of (48 + n mod 10)])"

definition str_int :: "int \<Rightarrow> string" where
  "str_int i = (if i < 0 then CHR ''-'' # str_nat (nat (- i)) else str_nat (nat i))"

text \<open>\<open>xs[i]\<close>: a negative index counts from the end, an index out of range raises.\<close>

definition getitem :: "'a list \<Rightarrow> int \<Rightarrow> error + 'a" where
  "getitem xs i =
     (if 0 \<le> i \<and> i < int (length xs) then Inr (xs ! nat i)
      else if i < 0 \<and> - int (length xs) \<le> i then Inr (xs ! nat (int (length xs) + i))
      else Inl IndexError)"

text \<open>The two loops that add pages: over the resolved indices, and over all pages.\<close>

fun add_selected :: "'p PdfWriter \<Rightarrow> 'p list \<Rightarrow> int list \<Rightarrow> error + 'p PdfWriter" where
  "add_selected w ps [] = Inr w"
| "add_selected w ps (i # indices) =
     (case getitem ps i of
        Inl err \<Rightarrow> Inl err
      | Inr p \<Rightarrow> add_selected (add_page w p) ps indices)"

fun add_every :: "'p PdfWriter \<Rightarrow> 'p list \<Rightarrow> 'p PdfWriter" where
  "add_every w [] = w"
| "add_every w (p # ps) = add_every (add_page w p) ps"

text \<open>
  Lines 53 to 65: the check of the number of range specs, then the list \<open>ranges\<close> with one
  entry per input. \<open>Inl\<close> is the configuration error.
\<close>

definition range_count :: "args \<Rightarrow> nat" where
  "range_count a = (case range_opt a of None \<Rightarrow> 0 | Some rs \<Rightarrow> length rs)"

definition normalize_ranges :: "args \<Rightarrow> unit + string option list" where
  "normalize_ranges a =
     (let n = length (inputs a)
      in case range_opt a of
           None \<Rightarrow> Inr (replicate n None)
         | Some rs \<Rightarrow>
             if rs = [] then Inr (replicate n None)
             else if length rs \<noteq> 1 \<and> length rs \<noteq> n then Inl ()
             else if length rs = 1 then Inr (replicate n (Some (hd rs)))
             else Inr (map Some rs))"

text \<open>
  Line 94, \<open>parse_range(r) if r else []\<close>: \<open>r\<close> is the entry of \<open>ranges\<close> for this input, and
  an absent or empty spec is not parsed.
\<close>

definition rng_of :: "string option \<Rightarrow> error + interval list" where
  "rng_of r =
     (case r of
        None \<Rightarrow> Inr []
      | Some spec \<Rightarrow> if spec = [] then Inr [] else parse_range spec)"

text \<open>Lines 96 to 98: the line printed in verbose mode.\<close>

definition report ::
  "args \<Rightarrow> 'p run \<Rightarrow> string \<Rightarrow> string option \<Rightarrow> interval list \<Rightarrow> int list \<Rightarrow> int \<Rightarrow> 'p run"
  where
  "report a st in_path r rng indices tot =
     (if verbose a then
        (let rs = (case r of None \<Rightarrow> ''ALL'' | Some spec \<Rightarrow> if spec = [] then ''ALL'' else spec)
         in print_out st
              (in_path @ '': '' @ str_int (if rng \<noteq> [] then int (length indices) else tot)
                @ '' pages (range='' @ rs @ '')''))
      else st)"

text \<open>
  Lines 93 to 112, for a reader on which the \<open>try\<close> block did not raise. Line 93 reads
  \<open>reader.pages\<close> outside the \<open>try\<close> block, so the error of an undecrypted file is not
  caught there.
\<close>

definition add_input ::
  "args \<Rightarrow> 'p run \<Rightarrow> string \<Rightarrow> string option \<Rightarrow> 'p PdfReader \<Rightarrow> 'p flow" where
  "add_input a st in_path r reader =
     (case get_pages reader of
        Inl err \<Rightarrow> Stop (Uncaught err) st
      | Inr ps \<Rightarrow>
          (let tot = int (length ps)
           in case rng_of r of
                Inl err \<Rightarrow> Stop (Uncaught err) st
              | Inr rng \<Rightarrow>
                  (let indices = page_indices rng tot;
                       st = report a st in_path r rng indices tot
                   in case (if rng \<noteq> [] then add_selected (writer st) ps indices
                            else Inr (add_every (writer st) ps)) of
                        Inl err \<Rightarrow> Stop (Uncaught err) st
                      | Inr w \<Rightarrow>
                          (if bookmarks a then
                             (let label = basename in_path;
                                  start = int (length (wpages w))
                                            - (if rng \<noteq> [] then int (length indices) else tot)
                              in Next (st\<lparr>writer := add_outline_item w label start\<rparr>))
                           else Next (st\<lparr>writer := w\<rparr>)))))"

text \<open>
  The body of the loop over the inputs, lines 70 to 112. A missing file ends the run with
  exit code 1. The two handlers act on what raises inside the \<open>try\<close> block: when
  \<open>decrypt("")\<close> raises (inner handler) or opening the file raises \<open>FileNotDecryptedError\<close>
  (outer handler), the input is skipped in exclude-encrypted mode and the run ends with exit
  code 1 otherwise; the notice of the inner handler is printed unless \<open>quiet\<close>, the notice
  of the outer handler always. Any other exception of the library is not caught. When
  \<open>decrypt("")\<close> returns, with the file decrypted or not, the run goes on to line 93.
\<close>

definition process_input ::
  "args \<Rightarrow> 'p world \<Rightarrow> 'p run \<Rightarrow> string \<Rightarrow> string option \<Rightarrow> 'p flow" where
  "process_input a env st0 in_path r =
     (let st = st0\<lparr>touched := touched st0 @ [in_path]\<rparr>
      in case files env in_path of
           None \<Rightarrow> Stop (SysExit 1) (print_err st (''Missing file: '' @ in_path))
         | Some (Raises err) \<Rightarrow>
             if err = FileNotDecryptedError then
               (if exclude_encrypted a
                then Next (print_out st (''Skipping encrypted: '' @ in_path))
                else Stop (SysExit 1)
                       (print_err st (''Encrypted file requires password: '' @ in_path)))
             else Stop (Uncaught err) st
         | Some (Reader reader) \<Rightarrow>
             if is_encrypted reader \<and> decrypt reader = DecryptRaises then
               (if exclude_encrypted a
                then Next (if \<not> quiet a
                           then print_out st (''Skipping encrypted: '' @ in_path)
                           else st)
                else Stop (SysExit 1)
                       (print_err st (''Encrypted file requires password: '' @ in_path)))
             else add_input a st in_path r reader)"

fun merge_loop ::
  "args \<Rightarrow> 'p world \<Rightarrow> 'p run \<Rightarrow> (string \<times> string option) list \<Rightarrow> 'p flow" where
  "merge_loop a env st [] = Next st"
| "merge_loop a env st ((in_path, r) # rest) =
     (case process_input a env st in_path r of
        Next st' \<Rightarrow> merge_loop a env st' rest
      | Stop how st' \<Rightarrow> Stop how st')"

text \<open>
  Lines 115 to 122: the metadata. Only the four known keys are copied, each under its name
  with a slash in front, and the writer is told only when at least one was present.
\<close>

definition build_info :: "(string \<Rightarrow> string option) \<Rightarrow> (string \<times> string) list" where
  "build_info meta =
     concat (map (\<lambda>k. case meta k of None \<Rightarrow> [] | Some v \<Rightarrow> [(CHR ''/'' # k, v)])
               [''Title'', ''Author'', ''Subject'', ''Keywords''])"

definition apply_metadata :: "args \<Rightarrow> 'p world \<Rightarrow> 'p PdfWriter \<Rightarrow> error + 'p PdfWriter" where
  "apply_metadata a env w =
     (case metadata a of
        None \<Rightarrow> Inr w
      | Some raw \<Rightarrow>
          if raw = [] then Inr w
          else (case json_loads env raw of
                  Inl err \<Rightarrow> Inl err
                | Inr meta \<Rightarrow>
                    (let kvs = build_info meta
                     in if kvs \<noteq> [] then Inr (add_metadata w kvs) else Inr w)))"

text \<open>
  The whole of \<open>main\<close> after the command line is parsed. The result says how the run
  ended, the final state, and the file written: the output path with the writer that was
  serialised, or \<open>None\<close> when the run ended before line 125. Opening and writing the
  output file are taken to succeed.
\<close>

record 'p finished =
  how :: outcome
  state :: "'p run"
  outfile :: "(string \<times> 'p PdfWriter) option"

definition empty_writer :: "'p PdfWriter" where
  "empty_writer = \<lparr>wpages = [], outline = [], info = []\<rparr>"

definition start_run :: "'p run" where
  "start_run = \<lparr>writer = empty_writer, stdout = [], stderr = [], touched = []\<rparr>"

definition main :: "args \<Rightarrow> 'p world \<Rightarrow> 'p finished" where
  "main a env =
     (case normalize_ranges a of
        Inl _ \<Rightarrow>
          \<lparr>how = SysExit 2,
           state = print_err start_run
             ''If using --range, supply one per input or a single range applied to all.'',
           outfile = None\<rparr>
      | Inr ranges \<Rightarrow>
          (case merge_loop a env start_run (zip (inputs a) ranges) of
             Stop h st \<Rightarrow> \<lparr>how = h, state = st, outfile = None\<rparr>
           | Next st \<Rightarrow>
               (case apply_metadata a env (writer st) of
                  Inl err \<Rightarrow> \<lparr>how = Uncaught err, state = st, outfile = None\<rparr>
                | Inr w \<Rightarrow>
                    \<lparr>how = Returned,
                     state = (let st' = st\<lparr>writer := w\<rparr>
                              in if \<not> quiet a then print_out st' (''Wrote '' @ output_arg a)
                                 else st'),
                     outfile = Some (output_arg a, w)\<rparr>)))"

section \<open>The parser's failures, as the specification words them\<close>

text \<open>
  A string is a valid integer when \<open>int\<close> accepts it. A comma-separated token is bad when,
  trimmed, it is not empty and one of its non-empty parts (its two sides when it has a dash,
  the whole token otherwise) is not a valid integer. A trimmed token denotes an interval
  when an empty side of a dash gives \<open>None\<close>, a non-empty side gives its number, and a token
  without a dash gives its number \<open>n\<close> as \<open>(n, n)\<close>. The tokens kept are the trimmed ones
  that are not empty.
\<close>

definition valid_int :: "string \<Rightarrow> bool" where
  "valid_int s = (case py_int s of Inl _ \<Rightarrow> False | Inr _ \<Rightarrow> True)"

definition bad_token :: "string \<Rightarrow> bool" where
  "bad_token raw =
     (let token = strip raw
      in token \<noteq> [] \<and>
         (if CHR ''-'' \<in> set token
          then (let (a, b) = split_first (CHR ''-'') token
                in (a \<noteq> [] \<and> \<not> valid_int a) \<or> (b \<noteq> [] \<and> \<not> valid_int b))
          else \<not> valid_int token))"

definition side_denotes :: "string \<Rightarrow> int option \<Rightarrow> bool" where
  "side_denotes x v =
     (if x = [] then v = None
      else (case v of None \<Rightarrow> False | Some n \<Rightarrow> py_int x = Inr n))"

definition token_denotes :: "string \<Rightarrow> interval \<Rightarrow> bool" where
  "token_denotes token iv =
     (if CHR ''-'' \<in> set token
      then (let (a, b) = split_first (CHR ''-'') token
            in side_denotes a (fst iv) \<and> side_denotes b (snd iv))
      else (case fst iv of
              None \<Rightarrow> False
            | Some n \<Rightarrow> py_int token = Inr n \<and> snd iv = Some n))"

definition kept_tokens :: "string list \<Rightarrow> string list" where
  "kept_tokens raws = filter (\<lambda>t. t \<noteq> []) (map strip raws)"

section \<open>Skipped inputs and selected pages\<close>

text \<open>
  An input is skipped when the run is in exclude-encrypted mode and one of the two handlers
  is reached: opening the file raises \<open>FileNotDecryptedError\<close>, or it is encrypted and
  \<open>decrypt("")\<close> raises. The number of pages selected from an input is the number of
  resolved indices when a spec was supplied, and the page count of the document when none
  was.
\<close>

definition skipped :: "args \<Rightarrow> 'p world \<Rightarrow> string \<Rightarrow> bool" where
  "skipped a env in_path =
     (exclude_encrypted a \<and>
      (case files env in_path of
         None \<Rightarrow> False
       | Some (Raises err) \<Rightarrow> err = FileNotDecryptedError
       | Some (Reader reader) \<Rightarrow> is_encrypted reader \<and> decrypt reader = DecryptRaises))"

definition selected_count :: "'p world \<Rightarrow> string \<times> string option \<Rightarrow> nat" where
  "selected_count env x =
     (case files env (fst x) of
        Some (Reader reader) \<Rightarrow>
          (case snd x of
             None \<Rightarrow> length (pages reader)
           | Some spec \<Rightarrow>
               (case parse_range spec of
                  Inl _ \<Rightarrow> 0
                | Inr rng \<Rightarrow> length (page_indices rng (int (length (pages reader))))))
      | _ \<Rightarrow> 0)"

section \<open>Example documents\<close>

text \<open>
  A plain document with \<open>n\<close> pages, the pages being numbers; an encrypted document on which
  \<open>decrypt("")\<close> raises; and a password-protected document, on which \<open>decrypt("")\<close> returns
  without decrypting. The example world has \<open>A.pdf\<close> with 5 pages, \<open>B.pdf\<close> with 3 pages,
  \<open>E.pdf\<close> on which \<open>decrypt("")\<close> raises, the password-protected \<open>L.pdf\<close>, and \<open>N.pdf\<close>,
  which raises \<open>FileNotDecryptedError\<close> when opened; the example arguments merge into
  \<open>out.pdf\<close> with bookmarks, in exclude-encrypted mode.
\<close>

definition plain_doc :: "nat \<Rightarrow> nat PdfReader" where
  "plain_doc n = \<lparr>is_encrypted = False, decrypt = Decrypted, pages = [0..<n]\<rparr>"

definition raising_doc :: "nat PdfReader" where
  "raising_doc = \<lparr>is_encrypted = True, decrypt = DecryptRaises, pages = [0..<4]\<rparr>"

definition locked_doc :: "nat PdfReader" where
  "locked_doc = \<lparr>is_encrypted = True, decrypt = NotDecrypted, pages = [0..<4]\<rparr>"

definition example_world :: "nat world" where
  "example_world =
     \<lparr>files = (\<lambda>path. if path = ''docs/A.pdf'' then Some (Reader (plain_doc 5))
                       else if path = ''B.pdf'' then Some (Reader (plain_doc 3))
                       else if path = ''E.pdf'' then Some (Reader raising_doc)
                       else if path = ''L.pdf'' then Some (Reader locked_doc)
                       else if path = ''N.pdf'' then Some (Raises FileNotDecryptedError)
                       else None),
      json_loads = (\<lambda>raw. Inl ValueError)\<rparr>"

definition example_args :: "string list \<Rightarrow> string list option \<Rightarrow> args" where
  "example_args ins rs =
     \<lparr>inputs = ins, output_arg = ''out.pdf'', range_opt = rs, bookmarks = True,
      metadata = None, exclude_encrypted = True, quiet = False, verbose = False\<rparr>"

section \<open>Properties of the range resolver\<close>

lemma upto_from_zero: "[0..int N - 1] = map int [0..<N]"
proof (induction N)
  case 0
  then show ?case by simp
next
  case (Suc N)
  have "[0..int (Suc N) - 1] = [0..int N - 1] @ [int N]"
    using upto_rec2 [of 0 "int N"] by simp
  with Suc show ?case by simp
qed

lemma py_range_nat: "py_range 0 (int N) = map int [0..<N]"
  by (simp add: py_range_def upto_from_zero)

lemma parse_range_empty: "parse_range [] = Inr []"
  by (simp add: parse_range_def strip_def)

text \<open>
  Claim C6. Parsing the empty string gives the empty interval list, and resolving the empty
  interval list against a document of \<open>N\<close> pages gives all indices \<open>0, ..., N-1\<close>; so
  resolving the parse of the empty string gives them too.
\<close>

theorem C6_empty_spec_selects_all:
  "parse_range '''' = Inr []
   \<and> page_indices [] (int N) = map int [0..<N]
   \<and> map_sum id (\<lambda>rng. page_indices rng (int N)) (parse_range '''') = Inr (page_indices [] (int N))"
  by (simp add: parse_range_empty page_indices_def py_range_nat)

lemma collect_acc: "collect ranges tot idx = idx @ collect ranges tot []"
proof (induction ranges arbitrary: idx)
  case Nil
  then show ?case by simp
next
  case (Cons iv ranges)
  obtain s e where iv: "iv = (s, e)" by (cases iv)
  show ?case
    unfolding iv collect.simps Let_def
    by (subst Cons.IH, subst (2) Cons.IH) simp
qed

lemma collect_append:
  "collect (xs @ ys) tot idx = collect ys tot (collect xs tot idx)"
  by (induction xs arbitrary: idx) (auto simp: Let_def)

lemma collect_skip:
  assumes "min tot (case e of None \<Rightarrow> tot | Some v \<Rightarrow> v) < max 1 (case s of None \<Rightarrow> 1 | Some v \<Rightarrow> v)"
  shows "collect (xs @ (s, e) # ys) tot idx = collect (xs @ ys) tot idx"
proof -
  have "\<not> max 1 (case s of None \<Rightarrow> 1 | Some v \<Rightarrow> v) \<le> min tot (case e of None \<Rightarrow> tot | Some v \<Rightarrow> v)"
    using assms by linarith
  then show ?thesis
    unfolding collect_append collect.simps Let_def by (simp only: if_False)
qed

lemma dedup_fresh:
  "distinct idx \<Longrightarrow> set idx \<inter> seen = {} \<Longrightarrow> dedup idx seen out = out @ idx"
  by (induction idx arbitrary: seen out) auto

lemma dedup_subset: "set (dedup idx seen out) \<subseteq> set idx \<union> set out"
proof (induction idx arbitrary: seen out)
  case Nil
  then show ?case by simp
next
  case (Cons i idx)
  show ?case
    using Cons.IH [of "insert i seen" "out @ [i]"] Cons.IH [of seen out] by auto
qed

lemma collect_bounds: "set (collect ranges tot idx) \<subseteq> set idx \<union> {0..tot - 1}"
proof (induction ranges arbitrary: idx)
  case Nil
  then show ?case by simp
next
  case (Cons iv ranges)
  obtain s e where iv: "iv = (s, e)" by (cases iv)
  show ?case
    unfolding iv collect.simps Let_def
    by (rule subset_trans [OF Cons.IH]) (auto simp: py_range_def)
qed

lemma page_indices_bounds: "set (page_indices ranges tot) \<subseteq> {0..tot - 1}"
proof (cases "ranges = []")
  case True
  then show ?thesis by (simp add: page_indices_def py_range_def)
next
  case False
  have "set (dedup (collect ranges tot []) {} []) \<subseteq> set (collect ranges tot [])"
    using dedup_subset [of "collect ranges tot []" "{}" "[]"] by simp
  also have "\<dots> \<subseteq> {0..tot - 1}"
    using collect_bounds [of ranges tot "[]"] by simp
  finally show ?thesis using False by (simp add: page_indices_def)
qed

lemma collect_open: "collect [(None, None)] (int N) idx = idx @ map int [0..<N]"
proof (cases N)
  case 0
  then show ?thesis by simp
next
  case (Suc n)
  then have "1 \<le> int N" by simp
  then have "collect [(None, None)] (int N) idx = idx @ py_range 0 (int N)"
    by simp
  then show ?thesis by (simp only: py_range_nat)
qed


text \<open>
  Claim C10 says that a negative page token selects no pages. A token that starts with a
  minus sign contains a dash, so it is read as an interval with an open start: \<open>-3\<close> is
  \<open>(None, 3)\<close> and selects the first three pages of a document of 5 pages.
\<close>

theorem C10_counterexample:
  "parse_range ''-3'' = Inr [(None, Some 3)] \<and> page_indices [(None, Some 3)] 5 = [0, 1, 2]"
  by code_simp

lemma parse_zero: "parse_range ''0'' = Inr [(Some 0, Some 0)]"
  by code_simp

lemma parse_minus_three: "parse_range ''-3'' = Inr [(None, Some 3)]"
  by code_simp

text \<open>
  Claim C10 as the code has it. The token \<open>0\<close> parses to \<open>(0, 0)\<close> without error, and the
  interval \<open>(0, 0)\<close>, like every interval \<open>(n, n)\<close> with \<open>n \<le> 0\<close>, resolves to no page for
  every page count. The token \<open>-3\<close> is the interval \<open>(None, 3)\<close>, not a negative page.
\<close>

theorem C10_zero_token_selects_nothing:
  "parse_range ''0'' = Inr [(Some 0, Some 0)]
   \<and> page_indices [(Some 0, Some 0)] tot = []
   \<and> page_indices [(Some (- int k), Some (- int k))] tot = []
   \<and> parse_range ''-3'' = Inr [(None, Some 3)]"
  by (simp add: parse_zero parse_minus_three page_indices_def)

lemma example_parse: "parse_range ''1,3,8-12,-5,7-'' = Inr [(Some 1,Some 1),(Some 3,Some 3),(Some 8,Some 12),(None,Some 5),(Some 7,None)]"
  by code_simp

lemma example_resolve: "page_indices [(Some 1,Some 1),(Some 3,Some 3),(Some 8,Some 12),(None,Some 5),(Some 7,None)] 20 = [0,2,7,8,9,10,11,1,3,4,6,12,13,14,15,16,17,18,19]"
  by code_simp

text \<open>
  Claim C1 describes the resolved indices as the union of \<open>{0, 2}\<close> and \<open>{6..19}\<close>. The
  index 1, which the interval \<open>(None, 5)\<close> contributes, is in the result and not in that
  union.
\<close>

theorem C1_counterexample:
  "(1::int) \<in> set (page_indices [(Some 1,Some 1),(Some 3,Some 3),(Some 8,Some 12),(None,Some 5),(Some 7,None)] 20)
   \<and> (1::int) \<notin> {0, 2} \<union> {6..19}"
  by (simp add: example_resolve)

text \<open>
  Claim C1 as the code has it. The spec \<open>1,3,8-12,-5,7-\<close> parses to the five intervals
  \<open>(1,1), (3,3), (8,12), (None,5), (7,None)\<close>; against 20 pages they resolve to the list
  \<open>0,2,7,8,9,10,11,1,3,4,6,12,...,19\<close>, in which every index occurs once, at the place where
  it was first met; the indices are those of \<open>{0..4}\<close> and \<open>{6..19}\<close>.
\<close>

theorem C1_example_spec_resolves:
  "parse_range ''1,3,8-12,-5,7-'' = Inr [(Some 1,Some 1),(Some 3,Some 3),(Some 8,Some 12),(None,Some 5),(Some 7,None)]
  \<and> page_indices [(Some 1,Some 1),(Some 3,Some 3),(Some 8,Some 12),(None,Some 5),(Some 7,None)] 20 = [0,2,7,8,9,10,11,1,3,4,6,12,13,14,15,16,17,18,19]
  \<and> distinct (page_indices [(Some 1,Some 1),(Some 3,Some 3),(Some 8,Some 12),(None,Some 5),(Some 7,None)] 20)
  \<and> set (page_indices [(Some 1,Some 1),(Some 3,Some 3),(Some 8,Some 12),(None,Some 5),(Some 7,None)] 20) = {0..4} \<union> {6..19}"
proof -
  have "{0..4} \<union> {6..19} = set ([0..4] @ [6..19::int])"
    by (simp only: set_append set_upto)
  also have "[0..4] @ [6..19::int] = [0,1,2,3,4,6,7,8,9,10,11,12,13,14,15,16,17,18,19]"
    by code_simp
  finally have "set [0,2,7,8,9,10,11,1,3,4,6,12,13,14,15,16,17,18,19] = {0..4} \<union> {6..19::int}"
    by auto
  then show ?thesis
    by (simp only: example_parse example_resolve) simp
qed

section \<open>Properties of the range parser\<close>

lemma py_int_error: "py_int s = Inl err \<Longrightarrow> err = ValueError"
  unfolding py_int_def Let_def by (metis Inl_inject sum.distinct(1))

lemma valid_int_iff: "valid_int s \<longleftrightarrow> (\<exists>n. py_int s = Inr n)"
  by (auto simp: valid_int_def split: sum.splits)

lemma not_valid_int_iff: "\<not> valid_int s \<longleftrightarrow> py_int s = Inl ValueError"
  using py_int_error [of s] by (cases "py_int s") (auto simp: valid_int_def)

lemma opt_int_error: "opt_int x = Inl err \<Longrightarrow> err = ValueError"
  by (auto simp: opt_int_def split: if_splits sum.splits dest: py_int_error)

lemma opt_int_fails: "opt_int x = Inl ValueError \<longleftrightarrow> x \<noteq> [] \<and> \<not> valid_int x"
  by (auto simp: opt_int_def not_valid_int_iff split: sum.splits dest: py_int_error)

lemma opt_int_denotes: "opt_int x = Inr v \<longleftrightarrow> side_denotes x v"
  by (auto simp: opt_int_def side_denotes_def split: sum.splits option.splits)

lemma parse_token_error: "parse_token t = Inl err \<Longrightarrow> err = ValueError"
  by (auto simp: parse_token_def split: if_splits sum.splits prod.splits
      dest: py_int_error opt_int_error)

lemma parse_token_fails:
  "parse_token t = Inl ValueError \<longleftrightarrow>
     (if CHR ''-'' \<in> set t
      then (let (a, b) = split_first (CHR ''-'') t
            in (a \<noteq> [] \<and> \<not> valid_int a) \<or> (b \<noteq> [] \<and> \<not> valid_int b))
      else \<not> valid_int t)"
proof (cases "CHR ''-'' \<in> set t")
  case True
  obtain a b where ab: "split_first (CHR ''-'') t = (a, b)" by (cases "split_first (CHR ''-'') t")
  show ?thesis
  proof (cases "opt_int a")
    case (Inl err)
    then have "opt_int a = Inl ValueError" using opt_int_error by blast
    then show ?thesis using True ab by (simp add: parse_token_def opt_int_fails [symmetric])
  next
    case (Inr start)
    then have a_ok: "\<not> (a \<noteq> [] \<and> \<not> valid_int a)"
      using opt_int_fails [of a] by simp
    show ?thesis
    proof (cases "opt_int b")
      case (Inl err)
      then have "opt_int b = Inl ValueError" using opt_int_error by blast
      then show ?thesis
        using True ab Inr by (simp add: parse_token_def opt_int_fails [symmetric])
    next
      case b: (Inr end')
      then have "\<not> (b \<noteq> [] \<and> \<not> valid_int b)"
        using opt_int_fails [of b] by simp
      then show ?thesis using True ab Inr b a_ok by (simp add: parse_token_def)
    qed
  qed
next
  case False
  then show ?thesis
    by (auto simp: parse_token_def not_valid_int_iff split: sum.splits dest: py_int_error)
qed

lemma parse_token_bad:
  "strip raw \<noteq> [] \<Longrightarrow> parse_token (strip raw) = Inl ValueError \<longleftrightarrow> bad_token raw"
  by (simp add: parse_token_fails bad_token_def Let_def)

lemma parse_token_denotes: "parse_token t = Inr iv \<longleftrightarrow> token_denotes t iv"
proof (cases "CHR ''-'' \<in> set t")
  case True
  obtain a b where ab: "split_first (CHR ''-'') t = (a, b)" by (cases "split_first (CHR ''-'') t")
  show ?thesis
    using True ab
    by (cases iv) (auto simp: parse_token_def token_denotes_def opt_int_denotes [symmetric]
        split: sum.splits)
next
  case False
  then show ?thesis
    by (cases iv) (auto simp: parse_token_def token_denotes_def split: sum.splits option.splits)
qed

lemma parse_loop_error: "parse_loop tokens parts = Inl err \<Longrightarrow> err = ValueError"
  by (induction tokens arbitrary: parts)
     (auto simp: Let_def split: if_splits sum.splits dest: parse_token_error)

lemma parse_loop_bad:
  "(\<exists>raw\<in>set tokens. bad_token raw) \<Longrightarrow> parse_loop tokens parts = Inl ValueError"
proof (induction tokens arbitrary: parts)
  case Nil
  then show ?case by simp
next
  case (Cons raw tokens)
  show ?case
  proof (cases "strip raw = []")
    case True
    then have "\<not> bad_token raw" by (simp add: bad_token_def)
    with Cons.prems have "\<exists>r\<in>set tokens. bad_token r" by auto
    then show ?thesis using True Cons.IH by simp
  next
    case False
    show ?thesis
    proof (cases "parse_token (strip raw)")
      case (Inl err)
      then show ?thesis using False parse_token_error [OF Inl] by simp
    next
      case (Inr iv)
      then have "\<not> bad_token raw"
        using parse_token_bad [OF False] by simp
      with Cons.prems have "\<exists>r\<in>set tokens. bad_token r" by auto
      then show ?thesis using False Inr Cons.IH by simp
    qed
  qed
qed

lemma parse_loop_good:
  "\<forall>raw\<in>set tokens. \<not> bad_token raw \<Longrightarrow>
   \<exists>ivs. parse_loop tokens parts = Inr (parts @ ivs) \<and> list_all2 token_denotes (kept_tokens tokens) ivs"
proof (induction tokens arbitrary: parts)
  case Nil
  then show ?case by (simp add: kept_tokens_def)
next
  case (Cons raw tokens)
  then have rest: "\<forall>r\<in>set tokens. \<not> bad_token r" and this_ok: "\<not> bad_token raw" by auto
  show ?case
  proof (cases "strip raw = []")
    case True
    then show ?thesis using Cons.IH [OF rest, of parts] by (simp add: kept_tokens_def)
  next
    case False
    have "parse_token (strip raw) \<noteq> Inl ValueError"
      using parse_token_bad [OF False] this_ok by simp
    then obtain iv where iv: "parse_token (strip raw) = Inr iv"
      using parse_token_error [of "strip raw"] by (cases "parse_token (strip raw)") auto
    then have den: "token_denotes (strip raw) iv" by (simp add: parse_token_denotes)
    from Cons.IH [OF rest, of "parts @ [iv]"] obtain ivs where
      "parse_loop tokens (parts @ [iv]) = Inr (parts @ iv # ivs)"
      "list_all2 token_denotes (kept_tokens tokens) ivs" by auto
    then show ?thesis using False iv den by (auto simp: kept_tokens_def)
  qed
qed

text \<open>
  Claim C8. \<open>parse_range\<close> raises exactly when some comma-separated token is bad; the only
  error it raises is the \<open>ValueError\<close> of \<open>int\<close>; and when no token is bad it returns one
  interval for each kept token, in order: \<open>(n, n)\<close> for a single number, \<open>None\<close> for an
  empty side of a dash.
\<close>

theorem C8_parse_range_fails_iff_bad_token:
  "(parse_range spec = Inl ValueError \<longleftrightarrow> (\<exists>raw\<in>set (split (CHR '','') spec). bad_token raw))
   \<and> (\<forall>err. parse_range spec = Inl err \<longrightarrow> err = ValueError)
   \<and> ((\<forall>raw\<in>set (split (CHR '','') spec). \<not> bad_token raw) \<longrightarrow>
        (\<exists>ivs. parse_range spec = Inr ivs
               \<and> list_all2 token_denotes (kept_tokens (split (CHR '','') spec)) ivs))"
proof (intro conjI)
  show "parse_range spec = Inl ValueError \<longleftrightarrow> (\<exists>raw\<in>set (split (CHR '','') spec). bad_token raw)"
  proof
    assume "parse_range spec = Inl ValueError"
    then show "\<exists>raw\<in>set (split (CHR '','') spec). bad_token raw"
      using parse_loop_good [of "split (CHR '','') spec" "[]"]
      by (auto simp: parse_range_def)
  next
    assume "\<exists>raw\<in>set (split (CHR '','') spec). bad_token raw"
    then show "parse_range spec = Inl ValueError"
      by (simp add: parse_range_def parse_loop_bad)
  qed
  show "\<forall>err. parse_range spec = Inl err \<longrightarrow> err = ValueError"
    by (auto simp: parse_range_def dest: parse_loop_error)
  show "(\<forall>raw\<in>set (split (CHR '','') spec). \<not> bad_token raw) \<longrightarrow>
        (\<exists>ivs. parse_range spec = Inr ivs
               \<and> list_all2 token_denotes (kept_tokens (split (CHR '','') spec)) ivs)"
    using parse_loop_good [of "split (CHR '','') spec" "[]"]
    by (auto simp: parse_range_def)
qed

text \<open>
  Claim C8 at concrete specs: \<open>1,x\<close> has the bad token \<open>x\<close> and fails; in \<open>1-3, ,7-\<close> no
  token is bad, and the parse is \<open>(1, 3), (7, None)\<close>.
\<close>

theorem C8_witness:
  "split (CHR '','') ''1,x'' = [''1'', ''x'']
   \<and> bad_token ''x''
   \<and> parse_range ''1,x'' = Inl ValueError
   \<and> split (CHR '','') ''1-3, ,7-'' = [''1-3'', '' '', ''7-'']
   \<and> \<not> bad_token ''1-3'' \<and> \<not> bad_token '' '' \<and> \<not> bad_token ''7-''
   \<and> parse_range ''1-3, ,7-'' = Inr [(Some 1, Some 3), (Some 7, None)]
   \<and> list_all2 token_denotes (kept_tokens (split (CHR '','') ''1-3, ,7-''))
         [(Some 1, Some 3), (Some 7, None)]"
proof -
  have s1: "split (CHR '','') ''1,x'' = [''1'', ''x'']"
    by code_simp
  have b1: "bad_token ''x''"
    by code_simp
  have s2: "split (CHR '','') ''1-3, ,7-'' = [''1-3'', '' '', ''7-'']"
    by code_simp
  have g1: "\<not> bad_token ''1-3''" and g2: "\<not> bad_token '' ''" and g3: "\<not> bad_token ''7-''"
    by code_simp+
  have val: "parse_range ''1-3, ,7-'' = Inr [(Some 1, Some 3), (Some 7, None)]"
    by code_simp
  have "\<exists>raw\<in>set (split (CHR '','') ''1,x''). bad_token raw"
    using s1 b1 by simp
  then have fails: "parse_range ''1,x'' = Inl ValueError"
    using C8_parse_range_fails_iff_bad_token [of "''1,x''"] by blast
  have "\<forall>raw\<in>set (split (CHR '','') ''1-3, ,7-''). \<not> bad_token raw"
    using s2 g1 g2 g3 by simp
  then have "\<exists>ivs. parse_range ''1-3, ,7-'' = Inr ivs
          \<and> list_all2 token_denotes (kept_tokens (split (CHR '','') ''1-3, ,7-'')) ivs"
    using C8_parse_range_fails_iff_bad_token [of "''1-3, ,7-''"] by blast
  with val have "list_all2 token_denotes (kept_tokens (split (CHR '','') ''1-3, ,7-''))
         [(Some 1, Some 3), (Some 7, None)]"
    by auto
  with s1 b1 fails s2 g1 g2 g3 val show ?thesis by blast
qed

section \<open>Properties of the merge driver\<close>

lemma add_every_eq: "add_every w ps = w\<lparr>wpages := wpages w @ ps\<rparr>"
  by (induction ps arbitrary: w) (simp_all add: add_page_def)

lemma add_selected_eq:
  "\<forall>i\<in>set indices. 0 \<le> i \<and> i < int (length ps) \<Longrightarrow>
   add_selected w ps indices = Inr (w\<lparr>wpages := wpages w @ map (\<lambda>i. ps ! nat i) indices\<rparr>)"
  by (induction indices arbitrary: w) (simp_all add: add_page_def getitem_def)

lemma page_indices_in_range:
  "i \<in> set (page_indices rng (int n)) \<Longrightarrow> 0 \<le> i \<and> i < int n"
  using page_indices_bounds [of rng "int n"] by auto

lemma length_all_indices: "length (page_indices [] (int n)) = n"
  by (simp add: page_indices_def py_range_nat)

lemma rng_of_Some: "rng_of (Some spec) = parse_range spec"
  by (simp add: rng_of_def parse_range_empty)

text \<open>
  The pages one input adds: those at the resolved indices when the parsed spec has an
  interval, all pages otherwise. Their number is in both cases the number of resolved
  indices.
\<close>

lemma add_pages_eq:
  "(if rng \<noteq> [] then add_selected w (pages reader) (page_indices rng (int (length (pages reader))))
    else Inr (add_every w (pages reader)))
   = Inr (w\<lparr>wpages := wpages w @
            (if rng \<noteq> [] then map (\<lambda>i. pages reader ! nat i)
                                 (page_indices rng (int (length (pages reader))))
             else pages reader)\<rparr>)"
proof (cases "rng = []")
  case True
  then show ?thesis by (simp add: add_every_eq)
next
  case False
  have "\<forall>i\<in>set (page_indices rng (int (length (pages reader)))).
          0 \<le> i \<and> i < int (length (pages reader))"
    using page_indices_in_range by blast
  then show ?thesis using False by (simp add: add_selected_eq)
qed

lemma collect_single:
  "collect [(s, e)] tot idx =
     idx @ (if max 1 (case s of None \<Rightarrow> 1 | Some v \<Rightarrow> v) \<le> min tot (case e of None \<Rightarrow> tot | Some v \<Rightarrow> v)
            then [max 1 (case s of None \<Rightarrow> 1 | Some v \<Rightarrow> v) - 1
                  ..min tot (case e of None \<Rightarrow> tot | Some v \<Rightarrow> v) - 1]
            else [])"
  unfolding collect.simps Let_def py_range_def by (simp only: append_Nil2 if_distrib [of "\<lambda>x. idx @ x"] split: if_splits)

lemma add_selected_resolved:
  "\<exists>w'. add_selected w ps (page_indices ranges (int (length ps))) = Inr w'"
proof -
  have "\<forall>i\<in>set (page_indices ranges (int (length ps))). 0 \<le> i \<and> i < int (length ps)"
    using page_indices_in_range by blast
  then show ?thesis by (simp add: add_selected_eq)
qed

text \<open>
  Claim C7. \<open>page_indices\<close> is a total function without an error result: the source has no
  statement that can raise on integers; and every index it returns lies in \<open>0..total-1\<close>, so
  that the driver's \<open>reader.pages[i]\<close> never raises on a resolved index. What one interval
  adds to \<open>idx\<close> is the clamped range, or nothing when the clamped start exceeds the clamped
  end. So an interval adds nothing, wherever it stands in the list, when its start, after
  \<open>None\<close> is replaced, exceeds its end, and when it lies outside the document (its start
  beyond the last page or its end before the first); so do \<open>(12, 8)\<close> for every page count
  and \<open>(100, 200)\<close> against 10 pages; the open interval \<open>(None, None)\<close> adds all \<open>N\<close>
  indices.
\<close>

theorem C7_resolution_degrades_silently:
  "((case e of None \<Rightarrow> tot | Some v \<Rightarrow> v) < (case s of None \<Rightarrow> 1 | Some v \<Rightarrow> v)
      \<longrightarrow> collect (xs @ (s, e) # ys) tot idx = collect (xs @ ys) tot idx)
   \<and> page_indices [(Some 12, Some 8)] tot = []
   \<and> collect (xs @ (Some 100, Some 200) # ys) 10 idx = collect (xs @ ys) 10 idx
   \<and> page_indices [(Some 100, Some 200)] 10 = []
   \<and> collect [(None, None)] (int N) idx = idx @ map int [0..<N]
   \<and> page_indices [(None, None)] (int N) = map int [0..<N]
   \<and> (tot < (case s of None \<Rightarrow> 1 | Some v \<Rightarrow> v) \<or> (case e of None \<Rightarrow> tot | Some v \<Rightarrow> v) < 1
      \<longrightarrow> collect (xs @ (s, e) # ys) tot idx = collect (xs @ ys) tot idx)
   \<and> collect [(s, e)] tot idx =
       idx @ (if max 1 (case s of None \<Rightarrow> 1 | Some v \<Rightarrow> v)
                   \<le> min tot (case e of None \<Rightarrow> tot | Some v \<Rightarrow> v)
              then [max 1 (case s of None \<Rightarrow> 1 | Some v \<Rightarrow> v) - 1
                    ..min tot (case e of None \<Rightarrow> tot | Some v \<Rightarrow> v) - 1]
              else [])
   \<and> set (page_indices ranges tot) \<subseteq> {0..tot - 1}
   \<and> (\<exists>w'. add_selected w ps (page_indices ranges (int (length ps))) = Inr w')"
proof -
  have rev: "(case e of None \<Rightarrow> tot | Some v \<Rightarrow> v) < (case s of None \<Rightarrow> 1 | Some v \<Rightarrow> v)
      \<Longrightarrow> collect (xs @ (s, e) # ys) tot idx = collect (xs @ ys) tot idx"
    by (rule collect_skip) (auto split: option.splits)
  have outside: "tot < (case s of None \<Rightarrow> 1 | Some v \<Rightarrow> v) \<or> (case e of None \<Rightarrow> tot | Some v \<Rightarrow> v) < 1
      \<Longrightarrow> collect (xs @ (s, e) # ys) tot idx = collect (xs @ ys) tot idx"
    by (rule collect_skip) (auto split: option.splits)
  have a: "page_indices [(Some 12, Some 8)] tot = []"
    by (simp add: page_indices_def)
  have b: "collect (xs @ (Some 100, Some 200) # ys) 10 idx = collect (xs @ ys) 10 idx"
    by (rule collect_skip) simp
  have c: "page_indices [(Some 100, Some 200)] 10 = []"
    by (simp add: page_indices_def)
  have d: "page_indices [(None, None)] (int N) = map int [0..<N]"
    using collect_open [of N "[]"] dedup_fresh [of "map int [0..<N]" "{}" "[]"]
    by (simp add: page_indices_def distinct_map del: collect.simps)
  show ?thesis
    using rev outside a b c d collect_open [of N idx] collect_single [of s e tot idx]
      page_indices_bounds [of ranges tot] add_selected_resolved [of w ps ranges]
    by blast
qed

text \<open>
  Claim C7 at concrete lists: the reversed interval \<open>(12, 8)\<close> between two others on a
  document of 5 pages, and the interval \<open>(11, 12)\<close>, which lies beyond a document of 10
  pages.
\<close>

theorem C7_witness:
  "(8::int) < 12
   \<and> collect ([(Some 1, Some 2)] @ (Some 12, Some 8) # [(Some 4, None)]) 5 []
       = collect ([(Some 1, Some 2)] @ [(Some 4, None)]) 5 []
   \<and> collect [(Some 1, Some 2), (Some 12, Some 8), (Some 4, None)] 5 [] = [0, 1, 3, 4]
   \<and> (10::int) < 11
   \<and> collect ([(Some 1, Some 2)] @ (Some 11, Some 12) # [(Some 4, Some 4)]) 10 []
       = collect ([(Some 1, Some 2)] @ [(Some 4, Some 4)]) 10 []
   \<and> collect [(Some 1, Some 2), (Some 11, Some 12), (Some 4, Some 4)] 10 [] = [0, 1, 3]
   \<and> page_indices [(Some 11, Some 12)] 10 = []"
proof -
  have h: "(case Some 8 of None \<Rightarrow> 5 | Some v \<Rightarrow> v) < (case Some 12 of None \<Rightarrow> 1 | Some v \<Rightarrow> (v::int))"
    by simp
  have one: "collect ([(Some 1, Some 2)] @ (Some 12, Some 8) # [(Some 4, None)]) 5 []
          = collect ([(Some 1, Some 2)] @ [(Some 4, None)]) 5 []"
    using C7_resolution_degrades_silently
      [where e = "Some 8" and tot = 5 and s = "Some 12" and xs = "[(Some 1, Some 2)]"
         and ys = "[(Some 4, None)]" and idx = "[]" and N = 0 and ranges = "[]"
         and w = "empty_writer::nat PdfWriter" and ps = "[]"] h
    by blast
  have h2: "10 < (case Some 11 of None \<Rightarrow> 1 | Some v \<Rightarrow> (v::int))
            \<or> (case Some 12 of None \<Rightarrow> 10 | Some v \<Rightarrow> (v::int)) < 1"
    by simp
  have two: "collect ([(Some 1, Some 2)] @ (Some 11, Some 12) # [(Some 4, Some 4)]) 10 []
          = collect ([(Some 1, Some 2)] @ [(Some 4, Some 4)]) 10 []"
    using C7_resolution_degrades_silently
      [where e = "Some 12" and tot = 10 and s = "Some 11" and xs = "[(Some 1, Some 2)]"
         and ys = "[(Some 4, Some 4)]" and idx = "[]" and N = 0 and ranges = "[]"
         and w = "empty_writer::nat PdfWriter" and ps = "[]"] h2
    by blast
  have v1: "collect [(Some 1, Some 2), (Some 12, Some 8), (Some 4, None)] 5 [] = [0, 1, 3, 4]"
    by code_simp
  have v2: "collect [(Some 1, Some 2), (Some 11, Some 12), (Some 4, Some 4)] 10 [] = [0, 1, 3]"
    by code_simp
  have v3: "page_indices [(Some 11, Some 12)] 10 = []"
    by (simp add: page_indices_def)
  show ?thesis
    using one two v1 v2 v3 by simp
qed

lemma writer_report: "writer (report a st in_path r rng indices tot) = writer st"
  by (simp add: report_def print_out_def Let_def)

text \<open>
  What \<open>add_input\<close> does once the spec is parsed: it reports, appends the selected pages,
  and, with bookmarks, adds an outline item at the page count from before.
\<close>

lemma readable_not_raising:
  "readable reader \<Longrightarrow> \<not> (is_encrypted reader \<and> decrypt reader = DecryptRaises)"
  by (auto simp: readable_def)

lemma add_input_unreadable:
  "\<not> readable reader \<Longrightarrow>
   add_input a st in_path r reader = Stop (Uncaught FileNotDecryptedError) st"
  by (simp add: add_input_def get_pages_def)

lemma add_input_eq:
  assumes "rng_of r = Inr rng" and "readable reader"
  shows "add_input a st in_path r reader =
     (let tot = int (length (pages reader));
          sel = (if rng \<noteq> [] then map (\<lambda>i. pages reader ! nat i) (page_indices rng tot)
                 else pages reader);
          st1 = report a st in_path r rng (page_indices rng tot) tot;
          w = (writer st)\<lparr>wpages := wpages (writer st) @ sel\<rparr>
      in Next (st1\<lparr>writer := (if bookmarks a
                               then add_outline_item w (basename in_path)
                                      (int (length (wpages (writer st))))
                               else w)\<rparr>))"
proof -
  define tot where "tot = int (length (pages reader))"
  define sel where "sel = (if rng \<noteq> [] then map (\<lambda>i. pages reader ! nat i) (page_indices rng tot)
                           else pages reader)"
  have len: "length sel = (if rng \<noteq> [] then length (page_indices rng tot) else length (pages reader))"
    by (simp add: sel_def)
  have added: "(if rng \<noteq> [] then add_selected (writer st) (pages reader) (page_indices rng tot)
                else Inr (add_every (writer st) (pages reader)))
               = Inr ((writer st)\<lparr>wpages := wpages (writer st) @ sel\<rparr>)"
    unfolding tot_def sel_def by (rule add_pages_eq)
  have start: "int (length (wpages (writer st) @ sel))
                 - (if rng \<noteq> [] then int (length (page_indices rng tot)) else tot)
               = int (length (wpages (writer st)))"
    using len by (simp add: tot_def)
  have gp: "get_pages reader = Inr (pages reader)"
    using assms(2) by (simp add: get_pages_def)
  show ?thesis
    unfolding add_input_def gp Let_def tot_def [symmetric] sel_def [symmetric] assms(1) sum.case
      writer_report added
    using start by simp
qed

lemma add_input_grows:
  assumes "add_input a st in_path r reader = Next st'"
  shows "\<exists>rng sel. rng_of r = Inr rng
           \<and> length sel = length (page_indices rng (int (length (pages reader))))
           \<and> wpages (writer st') = wpages (writer st) @ sel
           \<and> outline (writer st') =
               (if bookmarks a
                then outline (writer st) @ [(basename in_path, int (length (wpages (writer st))))]
                else outline (writer st))
           \<and> info (writer st') = info (writer st)"
proof (cases "rng_of r")
  case (Inl err)
  then show ?thesis
    using assms by (simp add: add_input_def Let_def split: sum.splits)
next
  case (Inr rng)
  have rd: "readable reader"
    using assms add_input_unreadable [of reader a st in_path r] by auto
  define tot where "tot = int (length (pages reader))"
  define sel where "sel = (if rng \<noteq> [] then map (\<lambda>i. pages reader ! nat i) (page_indices rng tot)
                           else pages reader)"
  have len: "length sel = length (page_indices rng tot)"
    by (simp add: sel_def tot_def length_all_indices)
  have "st' = (report a st in_path r rng (page_indices rng tot) tot)
                \<lparr>writer := (if bookmarks a
                   then add_outline_item ((writer st)\<lparr>wpages := wpages (writer st) @ sel\<rparr>)
                          (basename in_path) (int (length (wpages (writer st))))
                   else (writer st)\<lparr>wpages := wpages (writer st) @ sel\<rparr>)\<rparr>"
    using assms unfolding add_input_eq [OF Inr rd] Let_def tot_def sel_def by simp
  then show ?thesis
    using Inr len by (auto simp: tot_def add_outline_item_def)
qed

lemma process_input_reader:
  assumes "files env in_path = Some (Reader reader)"
      and "\<not> (is_encrypted reader \<and> decrypt reader = DecryptRaises)"
  shows "process_input a env st in_path r
           = add_input a (st\<lparr>touched := touched st @ [in_path]\<rparr>) in_path r reader"
  using assms
  by (cases "is_encrypted reader"; cases "decrypt reader")
     (simp_all add: process_input_def Let_def)

lemma process_input_not_skipped:
  assumes "process_input a env st in_path r = Next st'" and "\<not> skipped a env in_path"
  shows "\<exists>reader. files env in_path = Some (Reader reader)
           \<and> \<not> (is_encrypted reader \<and> decrypt reader = DecryptRaises)
           \<and> add_input a (st\<lparr>touched := touched st @ [in_path]\<rparr>) in_path r reader = Next st'"
proof (cases "files env in_path")
  case None
  then show ?thesis using assms by (simp add: process_input_def Let_def)
next
  case (Some f)
  show ?thesis
  proof (cases f)
    case (Raises err)
    then show ?thesis
      using assms Some by (auto simp: process_input_def Let_def skipped_def split: if_splits)
  next
    case (Reader reader)
    then show ?thesis
      using assms Some by (auto simp: process_input_def Let_def skipped_def split: if_splits)
  qed
qed

lemma process_input_skipped:
  assumes "skipped a env in_path"
  shows "\<exists>st'. process_input a env st in_path r = Next st' \<and> writer st' = writer st"
proof (cases "files env in_path")
  case None
  then show ?thesis using assms by (simp add: skipped_def)
next
  case (Some f)
  then show ?thesis
    using assms
    by (cases f) (auto simp: process_input_def Let_def skipped_def print_out_def)
qed

lemma process_input_step:
  assumes "process_input a env st in_path r = Next st'" and "\<not> skipped a env in_path"
  shows "\<exists>reader rng sel. files env in_path = Some (Reader reader)
           \<and> rng_of r = Inr rng
           \<and> length sel = length (page_indices rng (int (length (pages reader))))
           \<and> wpages (writer st') = wpages (writer st) @ sel
           \<and> outline (writer st') =
               (if bookmarks a
                then outline (writer st) @ [(basename in_path, int (length (wpages (writer st))))]
                else outline (writer st))"
proof -
  from process_input_not_skipped [OF assms] obtain reader where
    f: "files env in_path = Some (Reader reader)" and
    n: "add_input a (st\<lparr>touched := touched st @ [in_path]\<rparr>) in_path r reader = Next st'"
    by blast
  from add_input_grows [OF n] f show ?thesis by auto
qed

text \<open>
  Claim C2. When the spec of an input parses to at least one interval and resolves to no
  index, the input adds no page; with bookmarks on, an outline item is still added, and
  its page number is the writer's page count at that moment.
\<close>

theorem C2_empty_selection_keeps_bookmark:
  assumes "files env in_path = Some (Reader reader)"
      and "readable reader"
      and "parse_range spec = Inr rng"
      and "rng \<noteq> []"
      and "page_indices rng (int (length (pages reader))) = []"
  shows "\<exists>st'. process_input a env st in_path (Some spec) = Next st'
           \<and> wpages (writer st') = wpages (writer st)
           \<and> outline (writer st') =
               (if bookmarks a
                then outline (writer st) @ [(basename in_path, int (length (wpages (writer st))))]
                else outline (writer st))"
proof -
  have r: "rng_of (Some spec) = Inr rng"
    using assms(3) by (simp add: rng_of_Some)
  show ?thesis
    unfolding process_input_reader [OF assms(1) readable_not_raising [OF assms(2)]]
      add_input_eq [OF r assms(2)] Let_def
    using assms(4,5) by (simp add: add_outline_item_def writer_report)
qed

lemma example_files:
  "files example_world ''docs/A.pdf'' = Some (Reader (plain_doc 5))"
  "files example_world ''B.pdf'' = Some (Reader (plain_doc 3))"
  "files example_world ''E.pdf'' = Some (Reader raising_doc)"
  "files example_world ''L.pdf'' = Some (Reader locked_doc)"
  "files example_world ''N.pdf'' = Some (Raises FileNotDecryptedError)"
  by (simp_all add: example_world_def)

lemma plain_doc_simps:
  "is_encrypted (plain_doc n) = False"
  "readable (plain_doc n)"
  "length (pages (plain_doc n)) = n"
  by (simp_all add: plain_doc_def readable_def)

lemma example_basenames: "basename ''docs/A.pdf'' = ''A.pdf''" "basename ''B.pdf'' = ''B.pdf''"
  by (simp_all add: basename_def)

text \<open>
  Claim C2 at the spec \<open>100-200\<close> on the 5 pages of \<open>docs/A.pdf\<close>, from the empty writer: no
  page, and the outline item \<open>(A.pdf, 0)\<close>.
\<close>

theorem C2_witness:
  "parse_range ''100-200'' = Inr [(Some 100, Some 200)]
   \<and> page_indices [(Some 100, Some 200)] 5 = []
   \<and> (\<exists>st'. process_input (example_args [''docs/A.pdf''] (Some [''100-200''])) example_world
               start_run ''docs/A.pdf'' (Some ''100-200'') = Next st'
            \<and> wpages (writer st') = []
            \<and> outline (writer st') = [(''A.pdf'', 0)])"
proof -
  have p: "parse_range ''100-200'' = Inr [(Some 100, Some 200)]"
    by code_simp
  have e: "page_indices [(Some 100, Some 200)] 5 = []"
    by (simp add: page_indices_def)
  have n: "readable (plain_doc 5)"
    by (simp add: plain_doc_simps)
  have e': "page_indices [(Some 100, Some 200)] (int (length (pages (plain_doc 5)))) = []"
    using e by (simp add: plain_doc_simps)
  have ne: "[(Some 100, Some (200::int))] \<noteq> ([]::(int option \<times> int option) list)"
    by simp
  from C2_empty_selection_keeps_bookmark [OF example_files(1) n p _ e',
      of "example_args [''docs/A.pdf''] (Some [''100-200''])" start_run]
  have "\<exists>st'. process_input (example_args [''docs/A.pdf''] (Some [''100-200''])) example_world
               start_run ''docs/A.pdf'' (Some ''100-200'') = Next st'
            \<and> wpages (writer st') = []
            \<and> outline (writer st') = [(''A.pdf'', 0)]"
    by (simp add: example_args_def start_run_def empty_writer_def example_basenames)
  with p e show ?thesis by blast
qed

text \<open>
  Claim C3. With bookmarks on, an input that is processed and not skipped adds one outline
  item: its label is the base name of the path, its page number the writer's page count
  before the input's pages were added. Merging a document of 5 pages without a spec and
  then a document of 3 pages with a spec that selects 2 of them gives the items at 0 and
  at 5.
\<close>

theorem C3_bookmark_points_at_first_page:
  "(process_input a env st in_path r = Next st' \<and> bookmarks a \<and> \<not> skipped a env in_path
      \<longrightarrow> outline (writer st')
            = outline (writer st) @ [(basename in_path, int (length (wpages (writer st))))])
   \<and> (bookmarks a
        \<and> files env pa = Some (Reader ra) \<and> readable ra
        \<and> length (pages ra) = 5
        \<and> files env pb = Some (Reader rb) \<and> readable rb
        \<and> length (pages rb) = 3
        \<and> parse_range spec = Inr rng \<and> rng \<noteq> [] \<and> length (page_indices rng 3) = 2
      \<longrightarrow> (\<exists>st2. merge_loop a env start_run [(pa, None), (pb, Some spec)] = Next st2
                 \<and> outline (writer st2) = [(basename pa, 0), (basename pb, 5)]
                 \<and> length (wpages (writer st2)) = 7))"
proof (intro conjI impI)
  assume h: "process_input a env st in_path r = Next st' \<and> bookmarks a \<and> \<not> skipped a env in_path"
  then show "outline (writer st')
            = outline (writer st) @ [(basename in_path, int (length (wpages (writer st))))]"
    using process_input_step [of a env st in_path r st'] by auto
next
  assume h: "bookmarks a
        \<and> files env pa = Some (Reader ra) \<and> readable ra
        \<and> length (pages ra) = 5
        \<and> files env pb = Some (Reader rb) \<and> readable rb
        \<and> length (pages rb) = 3
        \<and> parse_range spec = Inr rng \<and> rng \<noteq> [] \<and> length (page_indices rng 3) = 2"
  then have fa: "files env pa = Some (Reader ra)" and na: "readable ra"
    and fb: "files env pb = Some (Reader rb)" and nb: "readable rb"
    and la: "length (pages ra) = 5" and lb: "length (pages rb) = 3"
    and bm: "bookmarks a" and sel: "length (page_indices rng 3) = 2" and ne: "rng \<noteq> []"
    by simp_all
  have ra: "rng_of None = Inr []" by (simp add: rng_of_def)
  have rb: "rng_of (Some spec) = Inr rng" using h by (simp add: rng_of_Some)
  obtain st1 where s1: "process_input a env start_run pa None = Next st1"
    and w1: "wpages (writer st1) = pages ra"
    and o1: "outline (writer st1) = [(basename pa, 0)]"
    unfolding process_input_reader [OF fa readable_not_raising [OF na]]
      add_input_eq [OF ra na] Let_def
    using bm by (simp add: add_outline_item_def writer_report start_run_def empty_writer_def)
  obtain st2 where s2: "process_input a env st1 pb (Some spec) = Next st2"
    and w2: "length (wpages (writer st2)) = 7"
    and o2: "outline (writer st2) = [(basename pa, 0), (basename pb, 5)]"
    unfolding process_input_reader [OF fb readable_not_raising [OF nb]]
      add_input_eq [OF rb nb] Let_def
    using bm ne sel la lb w1 o1 by (simp add: add_outline_item_def writer_report)
  show "\<exists>st2. merge_loop a env start_run [(pa, None), (pb, Some spec)] = Next st2
                 \<and> outline (writer st2) = [(basename pa, 0), (basename pb, 5)]
                 \<and> length (wpages (writer st2)) = 7"
    using s1 s2 w2 o2 by simp
qed

text \<open>
  Claim C3 in the example world: \<open>docs/A.pdf\<close> (5 pages, no spec) gets the outline item
  \<open>(A.pdf, 0)\<close>, and \<open>B.pdf\<close> (3 pages, spec \<open>2-3\<close>) after it the item \<open>(B.pdf, 5)\<close>.
\<close>

theorem C3_witness:
  "process_input (example_args [''docs/A.pdf'', ''B.pdf''] None) example_world start_run
       ''docs/A.pdf'' None
     = Next \<lparr>writer = \<lparr>wpages = [0, 1, 2, 3, 4], outline = [(''A.pdf'', 0)], info = []\<rparr>,
             stdout = [], stderr = [], touched = [''docs/A.pdf'']\<rparr>
   \<and> bookmarks (example_args [''docs/A.pdf'', ''B.pdf''] None)
   \<and> \<not> skipped (example_args [''docs/A.pdf'', ''B.pdf''] None) example_world ''docs/A.pdf''
   \<and> parse_range ''2-3'' = Inr [(Some 2, Some 3)]
   \<and> length (page_indices [(Some 2, Some 3)] 3) = 2
   \<and> (\<exists>st2. merge_loop (example_args [''docs/A.pdf'', ''B.pdf''] None) example_world start_run
                [(''docs/A.pdf'', None), (''B.pdf'', Some ''2-3'')] = Next st2
            \<and> outline (writer st2) = [(''A.pdf'', 0), (''B.pdf'', 5)]
            \<and> length (wpages (writer st2)) = 7)"
proof -
  let ?a = "example_args [''docs/A.pdf'', ''B.pdf''] None"
  let ?s1 = "\<lparr>writer = \<lparr>wpages = [0, 1, 2, 3, 4::nat], outline = [(''A.pdf'', 0)], info = []\<rparr>,
             stdout = [], stderr = [], touched = [''docs/A.pdf'']\<rparr>"
  have step: "process_input ?a example_world start_run ''docs/A.pdf'' None = Next ?s1"
    by code_simp
  have bm: "bookmarks ?a"
    by (simp add: example_args_def)
  have ns: "\<not> skipped ?a example_world ''docs/A.pdf''"
    by (simp add: skipped_def example_files plain_doc_simps)
  have p: "parse_range ''2-3'' = Inr [(Some 2, Some 3)]"
    by code_simp
  have l: "length (page_indices [(Some 2, Some 3)] 3) = 2"
    by code_simp
  have ne: "[(Some 2, Some (3::int))] \<noteq> ([]::(int option \<times> int option) list)"
    by simp
  note inst = C3_bookmark_points_at_first_page
    [where a = ?a and env = example_world and st = start_run and in_path = "''docs/A.pdf''"
       and r = None and st' = ?s1 and pa = "''docs/A.pdf''" and ra = "plain_doc 5"
       and pb = "''B.pdf''" and rb = "plain_doc 3" and spec = "''2-3''"
       and rng = "[(Some 2, Some 3)]"]
  have one: "outline (writer ?s1)
      = outline (writer (start_run::nat run))
          @ [(basename ''docs/A.pdf'', int (length (wpages (writer (start_run::nat run)))))]"
    using inst step bm ns by blast
  have two: "\<exists>st2. merge_loop ?a example_world start_run
                [(''docs/A.pdf'', None), (''B.pdf'', Some ''2-3'')] = Next st2
            \<and> outline (writer st2) = [(basename ''docs/A.pdf'', 0), (basename ''B.pdf'', 5)]
            \<and> length (wpages (writer st2)) = 7"
    using inst bm example_files(1,2) plain_doc_simps p l ne by simp
  show ?thesis
    using step bm ns p l two by (simp add: example_basenames)
qed

text \<open>
  What the inner handler does. In exclude-encrypted mode, an encrypted input on which
  \<open>decrypt("")\<close> raises is skipped: the writer is unchanged, the notice is printed unless
  \<open>quiet\<close>, and the loop goes on with the remaining inputs.
\<close>

lemma raising_decrypt_is_skipped:
  assumes "files env in_path = Some (Reader reader)"
      and "is_encrypted reader" and "decrypt reader = DecryptRaises"
      and "exclude_encrypted a"
  shows "process_input a env st in_path r
           = Next (st\<lparr>touched := touched st @ [in_path],
                      stdout := stdout st @ (if quiet a then []
                                             else [''Skipping encrypted: '' @ in_path])\<rparr>)"
  using assms by (simp add: process_input_def Let_def print_out_def)

text \<open>
  What happens when \<open>decrypt("")\<close> returns without decrypting: no handler is reached, line
  93 raises \<open>FileNotDecryptedError\<close>, and the loop stops there, in exclude-encrypted mode
  as well.
\<close>

lemma locked_input_stops_run:
  assumes "files env in_path = Some (Reader reader)"
      and "is_encrypted reader" and "decrypt reader = NotDecrypted"
  shows "merge_loop a env st ((in_path, r) # rest)
           = Stop (Uncaught FileNotDecryptedError) (st\<lparr>touched := touched st @ [in_path]\<rparr>)"
proof -
  have nr: "\<not> (is_encrypted reader \<and> decrypt reader = DecryptRaises)"
    using assms(3) by simp
  have "\<not> readable reader"
    using assms(2,3) by (simp add: readable_def)
  then show ?thesis
    by (simp add: process_input_reader [OF assms(1) nr] add_input_unreadable)
qed

text \<open>
  Claim C4 asks that in exclude-encrypted mode every input that the empty password does not
  decrypt be skipped, with a notice unless \<open>quiet\<close>, and that the run still succeed. The
  code does so only when \<open>decrypt("")\<close> raises. On the password-protected \<open>L.pdf\<close>,
  \<open>decrypt("")\<close> returns without decrypting: the run over \<open>L.pdf\<close> and \<open>B.pdf\<close> ends with
  the uncaught \<open>FileNotDecryptedError\<close> of line 93, exit code 1, no page added and no file
  written. On \<open>N.pdf\<close>, which the outer handler skips, the notice is printed although the
  run is quiet.
\<close>

theorem C4_locked_input_ends_run:
  "files example_world ''L.pdf'' = Some (Reader locked_doc)
   \<and> is_encrypted locked_doc \<and> decrypt locked_doc = NotDecrypted
   \<and> exclude_encrypted (example_args [''L.pdf'', ''B.pdf''] None)
   \<and> how (main (example_args [''L.pdf'', ''B.pdf''] None) example_world)
       = Uncaught FileNotDecryptedError
   \<and> exit_code (how (main (example_args [''L.pdf'', ''B.pdf''] None) example_world)) = 1
   \<and> wpages (writer (state (main (example_args [''L.pdf'', ''B.pdf''] None) example_world))) = []
   \<and> stdout (state (main (example_args [''L.pdf'', ''B.pdf''] None) example_world)) = []
   \<and> outfile (main (example_args [''L.pdf'', ''B.pdf''] None) example_world) = None
   \<and> quiet ((example_args [''N.pdf'', ''B.pdf''] None)\<lparr>quiet := True\<rparr>)
   \<and> process_input ((example_args [''N.pdf'', ''B.pdf''] None)\<lparr>quiet := True\<rparr>) example_world
         start_run ''N.pdf'' None
       = Next (start_run\<lparr>touched := [''N.pdf''], stdout := [''Skipping encrypted: N.pdf'']\<rparr>)"
proof -
  let ?a = "example_args [''L.pdf'', ''B.pdf''] None"
  let ?q = "(example_args [''N.pdf'', ''B.pdf''] None)\<lparr>quiet := True\<rparr>"
  have enc: "is_encrypted locked_doc" and dec: "decrypt locked_doc = NotDecrypted"
    by (simp_all add: locked_doc_def)
  have ex: "exclude_encrypted ?a"
    by (simp add: example_args_def)
  have nr: "normalize_ranges ?a = Inr [None, None]"
    by (simp add: normalize_ranges_def example_args_def)
  have loop: "merge_loop ?a example_world start_run (zip (inputs ?a) [None, None])
           = Stop (Uncaught FileNotDecryptedError) (start_run\<lparr>touched := [''L.pdf'']\<rparr>)"
    using locked_input_stops_run [OF example_files(4) enc dec, of ?a start_run None "[(''B.pdf'', None)]"]
    by (simp add: example_args_def start_run_def)
  have m: "main ?a example_world
           = \<lparr>how = Uncaught FileNotDecryptedError,
              state = start_run\<lparr>touched := [''L.pdf'']\<rparr>, outfile = None\<rparr>"
    by (simp add: main_def nr loop)
  have run: "how (main ?a example_world) = Uncaught FileNotDecryptedError"
    "exit_code (how (main ?a example_world)) = 1"
    "wpages (writer (state (main ?a example_world))) = []"
    "stdout (state (main ?a example_world)) = []"
    "outfile (main ?a example_world) = None"
    unfolding m by (simp_all add: start_run_def empty_writer_def)
  have q: "quiet ?q"
    by simp
  have ex': "exclude_encrypted ?q"
    by (simp add: example_args_def)
  have outer: "process_input ?q example_world start_run ''N.pdf'' None
       = Next (start_run\<lparr>touched := [''N.pdf''], stdout := [''Skipping encrypted: N.pdf'']\<rparr>)"
    using ex' by (simp add: process_input_def Let_def example_files(5) print_out_def start_run_def)
  show ?thesis
    using example_files(4) enc dec ex run q outer by blast
qed

lemma add_input_stop:
  assumes "add_input a st in_path r reader = Stop h st'"
  shows "\<exists>err. h = Uncaught err"
proof (cases "readable reader")
  case False
  then show ?thesis using assms by (auto simp: add_input_unreadable)
next
  case True
  show ?thesis
  proof (cases "rng_of r")
    case (Inl err)
    then show ?thesis
      using assms True by (auto simp: add_input_def get_pages_def Let_def)
  next
    case (Inr rng)
    then show ?thesis
      using assms unfolding add_input_eq [OF Inr True] Let_def by simp
  qed
qed

lemma process_input_stop:
  assumes "process_input a env st in_path r = Stop h st'"
  shows "h \<noteq> SysExit 2"
proof (cases "files env in_path")
  case None
  then show ?thesis using assms by (auto simp: process_input_def Let_def)
next
  case (Some f)
  show ?thesis
  proof (cases f)
    case (Raises err)
    then show ?thesis
      using assms Some by (auto simp: process_input_def Let_def split: if_splits)
  next
    case (Reader reader)
    show ?thesis
    proof (cases "is_encrypted reader \<and> decrypt reader = DecryptRaises")
      case True
      then show ?thesis
        using assms Some Reader by (auto simp: process_input_def Let_def split: if_splits)
    next
      case False
      then show ?thesis
        using assms add_input_stop unfolding process_input_reader [OF Some [unfolded Reader] False]
        by fastforce
    qed
  qed
qed

lemma merge_loop_stop: "merge_loop a env st xs = Stop h st' \<Longrightarrow> h \<noteq> SysExit 2"
proof (induction xs arbitrary: st)
  case Nil
  then show ?case by simp
next
  case (Cons x xs)
  obtain in_path r where x: "x = (in_path, r)" by (cases x)
  show ?case
  proof (cases "process_input a env st in_path r")
    case (Next st1)
    then show ?thesis using Cons x by simp
  next
    case (Stop h1 st1)
    then show ?thesis using Cons.prems x process_input_stop [OF Stop] by simp
  qed
qed

lemma normalize_ranges_error:
  "normalize_ranges a = Inl u \<longleftrightarrow>
     range_count a \<noteq> 0 \<and> range_count a \<noteq> 1 \<and> range_count a \<noteq> length (inputs a)"
  by (auto simp: normalize_ranges_def range_count_def Let_def split: option.splits)

lemma main_exit2:
  "how (main a env) = SysExit 2 \<longleftrightarrow>
     range_count a \<noteq> 0 \<and> range_count a \<noteq> 1 \<and> range_count a \<noteq> length (inputs a)"
proof (cases "normalize_ranges a")
  case (Inl u)
  then show ?thesis using normalize_ranges_error [of a u] by (simp add: main_def)
next
  case (Inr ranges)
  then have ok: "\<not> (range_count a \<noteq> 0 \<and> range_count a \<noteq> 1 \<and> range_count a \<noteq> length (inputs a))"
    using normalize_ranges_error [of a "()"] by simp
  have "how (main a env) \<noteq> SysExit 2"
    using Inr merge_loop_stop [of a env start_run "zip (inputs a) ranges"]
    by (auto simp: main_def split: flow.splits sum.splits)
  then show ?thesis using ok by blast
qed

text \<open>
  Claim C5. A number of range specs other than zero, one, or the number of inputs ends the
  run with exit code 2 before any path is looked at and without an output file, and
  nothing else ends it with that code. With no spec every input has the entry \<open>None\<close>,
  which selects all its pages; a single spec is the entry of every input; one spec per
  input gives each input its own.
\<close>

theorem C5_range_count_rule:
  "(range_count a \<noteq> 0 \<and> range_count a \<noteq> 1 \<and> range_count a \<noteq> length (inputs a)
      \<longrightarrow> how (main a env) = SysExit 2 \<and> exit_code (how (main a env)) = 2
          \<and> touched (state (main a env)) = [] \<and> outfile (main a env) = None)
   \<and> (how (main a env) = SysExit 2
      \<longrightarrow> range_count a \<noteq> 0 \<and> range_count a \<noteq> 1 \<and> range_count a \<noteq> length (inputs a))
   \<and> (range_count a = 0 \<longrightarrow> normalize_ranges a = Inr (replicate (length (inputs a)) None))
   \<and> (range_opt a = Some [spec]
      \<longrightarrow> normalize_ranges a = Inr (replicate (length (inputs a)) (Some spec)))
   \<and> (range_opt a = Some specs \<and> specs \<noteq> [] \<and> length specs = length (inputs a)
      \<longrightarrow> normalize_ranges a = Inr (map Some specs))
   \<and> (files env in_path = Some (Reader reader) \<and> readable reader
      \<longrightarrow> (\<exists>st'. process_input a env st in_path None = Next st'
                 \<and> wpages (writer st') = wpages (writer st) @ pages reader))"
proof (intro conjI impI)
  assume bad: "range_count a \<noteq> 0 \<and> range_count a \<noteq> 1 \<and> range_count a \<noteq> length (inputs a)"
  then have "normalize_ranges a = Inl ()"
    using normalize_ranges_error [of a "()"] by simp
  then have m: "main a env = \<lparr>how = SysExit 2,
           state = print_err start_run
             ''If using --range, supply one per input or a single range applied to all.'',
           outfile = None\<rparr>"
    by (simp add: main_def)
  show "how (main a env) = SysExit 2" "exit_code (how (main a env)) = 2"
    "touched (state (main a env)) = []" "outfile (main a env) = None"
    unfolding m by (simp_all add: print_err_def start_run_def)
next
  assume "how (main a env) = SysExit 2"
  then have *: "range_count a \<noteq> 0 \<and> range_count a \<noteq> 1 \<and> range_count a \<noteq> length (inputs a)"
    by (simp add: main_exit2)
  from * show "range_count a \<noteq> 0" by simp
  from * show "range_count a \<noteq> 1" by simp
  from * show "range_count a \<noteq> length (inputs a)" by simp
next
  assume "range_count a = 0"
  then show "normalize_ranges a = Inr (replicate (length (inputs a)) None)"
    by (auto simp: normalize_ranges_def range_count_def Let_def split: option.splits)
next
  assume "range_opt a = Some [spec]"
  then show "normalize_ranges a = Inr (replicate (length (inputs a)) (Some spec))"
    by (simp add: normalize_ranges_def Let_def)
next
  assume "range_opt a = Some specs \<and> specs \<noteq> [] \<and> length specs = length (inputs a)"
  then show "normalize_ranges a = Inr (map Some specs)"
    by (cases specs) (auto simp: normalize_ranges_def Let_def)
next
  assume h: "files env in_path = Some (Reader reader) \<and> readable reader"
  then have f: "files env in_path = Some (Reader reader)"
    and n: "readable reader" by simp_all
  have r: "rng_of None = Inr []" by (simp add: rng_of_def)
  show "\<exists>st'. process_input a env st in_path None = Next st'
                 \<and> wpages (writer st') = wpages (writer st) @ pages reader"
    unfolding process_input_reader [OF f readable_not_raising [OF n]]
      add_input_eq [OF r n] Let_def
    by (simp add: add_outline_item_def writer_report)
qed

text \<open>
  Claim C5 in the example world: three inputs with two specs end with exit code 2, no path
  looked at and no output file; three inputs with no spec, with one spec and with three
  specs get the entries the rule gives; and the entry \<open>None\<close> selects the 5 pages of
  \<open>docs/A.pdf\<close>.
\<close>

theorem C5_witness:
  "range_count (example_args [''docs/A.pdf'', ''B.pdf'', ''E.pdf''] (Some [''1'', ''2''])) = 2
   \<and> length (inputs (example_args [''docs/A.pdf'', ''B.pdf'', ''E.pdf''] (Some [''1'', ''2'']))) = 3
   \<and> how (main (example_args [''docs/A.pdf'', ''B.pdf'', ''E.pdf''] (Some [''1'', ''2'']))
            example_world) = SysExit 2
   \<and> touched (state (main (example_args [''docs/A.pdf'', ''B.pdf'', ''E.pdf''] (Some [''1'', ''2'']))
            example_world)) = []
   \<and> outfile (main (example_args [''docs/A.pdf'', ''B.pdf'', ''E.pdf''] (Some [''1'', ''2'']))
            example_world) = None
   \<and> normalize_ranges (example_args [''docs/A.pdf'', ''B.pdf'', ''E.pdf''] None)
       = Inr [None, None, None]
   \<and> normalize_ranges (example_args [''docs/A.pdf'', ''B.pdf'', ''E.pdf''] (Some [''1'']))
       = Inr [Some ''1'', Some ''1'', Some ''1'']
   \<and> normalize_ranges (example_args [''docs/A.pdf'', ''B.pdf'', ''E.pdf''] (Some [''1'', ''2'', ''3'']))
       = Inr [Some ''1'', Some ''2'', Some ''3'']
   \<and> (\<exists>st'. process_input (example_args [''docs/A.pdf''] None) example_world start_run
               ''docs/A.pdf'' None = Next st'
            \<and> wpages (writer st') = [0, 1, 2, 3, 4])"
proof -
  let ?ins = "[''docs/A.pdf'', ''B.pdf'', ''E.pdf'']"
  let ?bad = "example_args ?ins (Some [''1'', ''2''])"
  have c: "range_count ?bad = 2" and l: "length (inputs ?bad) = 3"
    by (simp_all add: range_count_def example_args_def)
  have cnt: "range_count ?bad \<noteq> 0 \<and> range_count ?bad \<noteq> 1 \<and> range_count ?bad \<noteq> length (inputs ?bad)"
    using c l by simp
  have exit2: "how (main ?bad example_world) = SysExit 2"
    and t: "touched (state (main ?bad example_world)) = []"
    and out: "outfile (main ?bad example_world) = None"
    using C5_range_count_rule [where a = ?bad and env = example_world and spec = "''1''" and specs = "[''1'', ''2'', ''3'']" and in_path = "''docs/A.pdf''" and reader = "plain_doc 5" and st = start_run] cnt by blast+
  have conv: "range_count ?bad \<noteq> 1"
    using C5_range_count_rule [where a = ?bad and env = example_world and spec = "''1''" and specs = "[''1'', ''2'', ''3'']" and in_path = "''docs/A.pdf''" and reader = "plain_doc 5" and st = start_run] exit2 by blast
  have "range_count (example_args ?ins None) = 0"
    by (simp add: range_count_def example_args_def)
  then have "normalize_ranges (example_args ?ins None)
               = Inr (replicate (length (inputs (example_args ?ins None))) None)"
    using C5_range_count_rule [where a = "example_args ?ins None" and env = example_world and spec = "''1''" and specs = "[''1'', ''2'', ''3'']" and in_path = "''docs/A.pdf''" and reader = "plain_doc 5" and st = start_run]
    by blast
  then have zero: "normalize_ranges (example_args ?ins None) = Inr [None, None, None]"
    by (simp add: example_args_def numeral_3_eq_3)
  have "range_opt (example_args ?ins (Some [''1''])) = Some [''1'']"
    by (simp add: example_args_def)
  then have "normalize_ranges (example_args ?ins (Some [''1'']))
       = Inr (replicate (length (inputs (example_args ?ins (Some [''1''])))) (Some ''1''))"
    using C5_range_count_rule [where a = "example_args ?ins (Some [''1''])" and env = example_world and spec = "''1''" and specs = "[''1'', ''2'', ''3'']" and in_path = "''docs/A.pdf''" and reader = "plain_doc 5" and st = start_run]
    by blast
  then have one: "normalize_ranges (example_args ?ins (Some [''1'']))
       = Inr [Some ''1'', Some ''1'', Some ''1'']"
    by (simp add: example_args_def numeral_3_eq_3)
  have "range_opt (example_args ?ins (Some [''1'', ''2'', ''3''])) = Some [''1'', ''2'', ''3'']
        \<and> [''1'', ''2'', ''3''] \<noteq> []
        \<and> length [''1'', ''2'', ''3''] = length (inputs (example_args ?ins (Some [''1'', ''2'', ''3''])))"
    by (simp add: example_args_def)
  then have "normalize_ranges (example_args ?ins (Some [''1'', ''2'', ''3'']))
       = Inr (map Some [''1'', ''2'', ''3''])"
    using C5_range_count_rule [where a = "example_args ?ins (Some [''1'', ''2'', ''3''])" and env = example_world and spec = "''1''" and specs = "[''1'', ''2'', ''3'']" and in_path = "''docs/A.pdf''" and reader = "plain_doc 5" and st = start_run]
    by blast
  then have each: "normalize_ranges (example_args ?ins (Some [''1'', ''2'', ''3'']))
       = Inr [Some ''1'', Some ''2'', Some ''3'']"
    by simp
  have n: "readable (plain_doc 5)"
    by (simp add: plain_doc_simps)
  have pg: "pages (plain_doc 5) = [0, 1, 2, 3, 4]"
    by code_simp
  have "\<exists>st'. process_input (example_args [''docs/A.pdf''] None) example_world start_run
               ''docs/A.pdf'' None = Next st'
            \<and> wpages (writer st') = wpages (writer (start_run::nat run)) @ pages (plain_doc 5)"
    using C5_range_count_rule [where a = "example_args [''docs/A.pdf''] None" and env = example_world and spec = "''1''" and specs = "[''1'', ''2'', ''3'']" and in_path = "''docs/A.pdf''" and reader = "plain_doc 5" and st = start_run]
      example_files(1) n
    by blast
  then have all: "\<exists>st'. process_input (example_args [''docs/A.pdf''] None) example_world start_run
               ''docs/A.pdf'' None = Next st'
            \<and> wpages (writer st') = [0, 1, 2, 3, 4]"
    by (simp add: pg start_run_def empty_writer_def)
  show ?thesis
    using c l exit2 t out zero one each all by blast
qed

lemma rng_of_count:
  assumes "files env in_path = Some (Reader reader)" and "rng_of r = Inr rng"
  shows "selected_count env (in_path, r)
           = length (page_indices rng (int (length (pages reader))))"
proof (cases r)
  case None
  then show ?thesis
    using assms by (simp add: selected_count_def rng_of_def length_all_indices)
next
  case (Some spec)
  then have "parse_range spec = Inr rng"
    using assms(2) by (simp add: rng_of_Some)
  then show ?thesis
    using assms(1) Some by (simp add: selected_count_def)
qed

lemma process_input_count:
  assumes "process_input a env st in_path r = Next st'" and "\<not> skipped a env in_path"
  shows "length (wpages (writer st'))
           = length (wpages (writer st)) + selected_count env (in_path, r)"
proof -
  from process_input_step [OF assms] obtain reader rng sel where
    f: "files env in_path = Some (Reader reader)" and r: "rng_of r = Inr rng"
    and l: "length sel = length (page_indices rng (int (length (pages reader))))"
    and w: "wpages (writer st') = wpages (writer st) @ sel"
    by blast
  show ?thesis
    using w l rng_of_count [OF f r] by simp
qed

lemma merge_loop_count:
  "merge_loop a env st xs = Next st' \<Longrightarrow>
   length (wpages (writer st'))
     = length (wpages (writer st))
       + sum_list (map (selected_count env) (filter (\<lambda>x. \<not> skipped a env (fst x)) xs))"
proof (induction xs arbitrary: st)
  case Nil
  then show ?case by simp
next
  case (Cons x xs)
  obtain in_path r where x: "x = (in_path, r)" by (cases x)
  show ?case
  proof (cases "process_input a env st in_path r")
    case (Stop h st1)
    then show ?thesis using Cons.prems x by simp
  next
    case (Next st1)
    then have rest: "merge_loop a env st1 xs = Next st'"
      using Cons.prems x by simp
    note ih = Cons.IH [OF rest]
    show ?thesis
    proof (cases "skipped a env in_path")
      case True
      then have "writer st1 = writer st"
        using process_input_skipped [OF True, of st r] Next by auto
      then show ?thesis using ih True x by simp
    next
      case False
      then show ?thesis
        using ih x process_input_count [OF Next False] by simp
    qed
  qed
qed

lemma apply_metadata_pages: "apply_metadata a env w = Inr w' \<Longrightarrow> wpages w' = wpages w"
  by (auto simp: apply_metadata_def add_metadata_def Let_def split: option.splits if_splits sum.splits)

text \<open>
  Claim C9. An input that is processed and not skipped makes the writer's page count grow
  by the number of pages selected from it; so after the loop the count has grown by the sum
  of these numbers over the inputs not skipped, and the writer of the output file has as
  many pages as that sum.
\<close>

theorem C9_output_page_count:
  "(process_input a env st in_path r = Next st' \<and> \<not> skipped a env in_path
      \<longrightarrow> length (wpages (writer st'))
            = length (wpages (writer st)) + selected_count env (in_path, r))
   \<and> (merge_loop a env st xs = Next st2
      \<longrightarrow> length (wpages (writer st2))
            = length (wpages (writer st))
              + sum_list (map (selected_count env)
                           (filter (\<lambda>x. \<not> skipped a env (fst x)) xs)))
   \<and> (normalize_ranges a = Inr ranges \<and> outfile (main a env) = Some (path, w)
      \<longrightarrow> length (wpages w)
            = sum_list (map (selected_count env)
                         (filter (\<lambda>x. \<not> skipped a env (fst x)) (zip (inputs a) ranges))))"
proof (intro conjI impI)
  assume "process_input a env st in_path r = Next st' \<and> \<not> skipped a env in_path"
  then show "length (wpages (writer st'))
            = length (wpages (writer st)) + selected_count env (in_path, r)"
    using process_input_count by blast
next
  assume "merge_loop a env st xs = Next st2"
  then show "length (wpages (writer st2))
            = length (wpages (writer st))
              + sum_list (map (selected_count env)
                           (filter (\<lambda>x. \<not> skipped a env (fst x)) xs))"
    by (rule merge_loop_count)
next
  assume h: "normalize_ranges a = Inr ranges \<and> outfile (main a env) = Some (path, w)"
  then have nr: "normalize_ranges a = Inr ranges" and out: "outfile (main a env) = Some (path, w)"
    by simp_all
  from out nr obtain st3 where
    loop: "merge_loop a env start_run (zip (inputs a) ranges) = Next st3"
    and meta: "apply_metadata a env (writer st3) = Inr w"
    by (auto simp: main_def split: flow.splits sum.splits)
  have "length (wpages w) = length (wpages (writer st3))"
    using apply_metadata_pages [OF meta] by simp
  also have "\<dots> = length (wpages (writer (start_run::'a run)))
              + sum_list (map (selected_count env)
                           (filter (\<lambda>x. \<not> skipped a env (fst x)) (zip (inputs a) ranges)))"
    by (rule merge_loop_count [OF loop])
  finally show "length (wpages w)
            = sum_list (map (selected_count env)
                         (filter (\<lambda>x. \<not> skipped a env (fst x)) (zip (inputs a) ranges)))"
    by (simp add: start_run_def empty_writer_def)
qed

text \<open>
  Claim C9 in the example world: \<open>docs/A.pdf\<close> with the spec \<open>1-\<close> (5 pages selected), the
  skipped \<open>E.pdf\<close>, and \<open>B.pdf\<close> with the spec \<open>2-5\<close> (2 pages selected) give an output of 7
  pages.
\<close>

theorem C9_witness:
  "process_input (example_args [''docs/A.pdf'', ''E.pdf'', ''B.pdf''] (Some [''1-'', ''1'', ''2-5'']))
       example_world start_run ''docs/A.pdf'' (Some ''1-'')
     = Next \<lparr>writer = \<lparr>wpages = [0, 1, 2, 3, 4], outline = [(''A.pdf'', 0)], info = []\<rparr>,
             stdout = [], stderr = [], touched = [''docs/A.pdf'']\<rparr>
   \<and> \<not> skipped (example_args [''docs/A.pdf'', ''E.pdf'', ''B.pdf''] (Some [''1-'', ''1'', ''2-5'']))
           example_world ''docs/A.pdf''
   \<and> selected_count example_world (''docs/A.pdf'', Some ''1-'') = 5
   \<and> merge_loop (example_args [''docs/A.pdf'', ''E.pdf'', ''B.pdf''] (Some [''1-'', ''1'', ''2-5'']))
       example_world start_run
       [(''docs/A.pdf'', Some ''1-''), (''E.pdf'', Some ''1''), (''B.pdf'', Some ''2-5'')]
     = Next \<lparr>writer = \<lparr>wpages = [0, 1, 2, 3, 4, 1, 2],
                         outline = [(''A.pdf'', 0), (''B.pdf'', 5)], info = []\<rparr>,
             stdout = [''Skipping encrypted: E.pdf''], stderr = [],
             touched = [''docs/A.pdf'', ''E.pdf'', ''B.pdf'']\<rparr>
   \<and> normalize_ranges (example_args [''docs/A.pdf'', ''E.pdf'', ''B.pdf''] (Some [''1-'', ''1'', ''2-5'']))
     = Inr [Some ''1-'', Some ''1'', Some ''2-5'']
   \<and> outfile (main (example_args [''docs/A.pdf'', ''E.pdf'', ''B.pdf''] (Some [''1-'', ''1'', ''2-5'']))
               example_world)
     = Some (''out.pdf'', \<lparr>wpages = [0, 1, 2, 3, 4, 1, 2],
                            outline = [(''A.pdf'', 0), (''B.pdf'', 5)], info = []\<rparr>)
   \<and> sum_list (map (selected_count example_world)
         (filter (\<lambda>x. \<not> skipped (example_args [''docs/A.pdf'', ''E.pdf'', ''B.pdf'']
                                     (Some [''1-'', ''1'', ''2-5''])) example_world (fst x))
            (zip [''docs/A.pdf'', ''E.pdf'', ''B.pdf''] [Some ''1-'', Some ''1'', Some ''2-5''])))
     = 7"
proof -
  let ?a = "example_args [''docs/A.pdf'', ''E.pdf'', ''B.pdf''] (Some [''1-'', ''1'', ''2-5''])"
  let ?xs = "[(''docs/A.pdf'', Some ''1-''), (''E.pdf'', Some ''1''), (''B.pdf'', Some ''2-5'')]"
  let ?s1 = "\<lparr>writer = \<lparr>wpages = [0, 1, 2, 3, 4::nat], outline = [(''A.pdf'', 0)], info = []\<rparr>,
             stdout = [], stderr = [], touched = [''docs/A.pdf'']\<rparr>"
  let ?w = "\<lparr>wpages = [0, 1, 2, 3, 4, 1, 2::nat],
             outline = [(''A.pdf'', 0), (''B.pdf'', 5)], info = []\<rparr>"
  let ?s2 = "\<lparr>writer = ?w, stdout = [''Skipping encrypted: E.pdf''], stderr = [],
             touched = [''docs/A.pdf'', ''E.pdf'', ''B.pdf'']\<rparr>"
  have step: "process_input ?a example_world start_run ''docs/A.pdf'' (Some ''1-'') = Next ?s1"
    by code_simp
  have ns: "\<not> skipped ?a example_world ''docs/A.pdf''"
    by (simp add: skipped_def example_files plain_doc_simps)
  have loop: "merge_loop ?a example_world start_run ?xs = Next ?s2"
    by code_simp
  have nr: "normalize_ranges ?a = Inr [Some ''1-'', Some ''1'', Some ''2-5'']"
    by (simp add: normalize_ranges_def example_args_def)
  have out: "outfile (main ?a example_world) = Some (''out.pdf'', ?w)"
    by code_simp
  have ins: "zip (inputs ?a) [Some ''1-'', Some ''1'', Some ''2-5''] = ?xs"
    by (simp add: example_args_def)
  note inst = C9_output_page_count
    [where a = ?a and env = example_world and st = start_run and in_path = "''docs/A.pdf''"
       and r = "Some ''1-''" and st' = ?s1 and xs = ?xs and ?st2.0 = ?s2
       and ranges = "[Some ''1-'', Some ''1'', Some ''2-5'']" and path = "''out.pdf''" and w = ?w]
  have "length (wpages (writer ?s1))
          = length (wpages (writer (start_run::nat run)))
            + selected_count example_world (''docs/A.pdf'', Some ''1-'')"
    using inst step ns by blast
  then have one: "selected_count example_world (''docs/A.pdf'', Some ''1-'') = 5"
    by (simp add: start_run_def empty_writer_def)
  have "length (wpages ?w)
          = sum_list (map (selected_count example_world)
              (filter (\<lambda>x. \<not> skipped ?a example_world (fst x))
                 (zip (inputs ?a) [Some ''1-'', Some ''1'', Some ''2-5''])))"
    using inst nr out by blast
  then have total: "sum_list (map (selected_count example_world)
              (filter (\<lambda>x. \<not> skipped ?a example_world (fst x)) ?xs)) = 7"
    unfolding ins by simp
  have "length (wpages (writer ?s2))
          = length (wpages (writer (start_run::nat run)))
            + sum_list (map (selected_count example_world)
                (filter (\<lambda>x. \<not> skipped ?a example_world (fst x)) ?xs))"
    using inst loop by blast
  have ins': "zip [''docs/A.pdf'', ''E.pdf'', ''B.pdf''] [Some ''1-'', Some ''1'', Some ''2-5''] = ?xs"
    by simp
  show ?thesis
    unfolding ins' using step ns one loop nr out total by blast
qed

end
